theory Spec2Isabelle
  imports Complex_Main "HOL-Library.Multiset"
begin

section \<open>Values of type \<open>any\<close>\<close>

text \<open>
  Payloads, task parameters and delegation results are typed \<open>any\<close> in the source.
  They are modelled by a small universe of JavaScript values. Numbers are integers here
  (no \<open>NaN\<close>, no fractions); \<open>truthy\<close> is the test that \<open>if (v)\<close> performs.
\<close>

datatype jsval =
    JUndefined
  | JNull
  | JBool bool
  | JNum int
  | JStr string
  | JArr "jsval list"
  | JObj "(string \<times> jsval) list"

fun truthy :: "jsval \<Rightarrow> bool" where
  "truthy JUndefined = False"
| "truthy JNull = False"
| "truthy (JBool b) = b"
| "truthy (JNum n) = (n \<noteq> 0)"
| "truthy (JStr s) = (s \<noteq> [])"
| "truthy (JArr xs) = True"
| "truthy (JObj kvs) = True"

text \<open>An optional string argument (\<open>error?: string\<close>): absent, or a string; the empty
  string is falsy.\<close>

fun truthyStr :: "string option \<Rightarrow> bool" where
  "truthyStr None = False"
| "truthyStr (Some s) = (s \<noteq> [])"

section \<open>Data model of the agent coordinator (services/agent-coordinator.ts)\<close>

record AgentCapability =
  cap_id :: string
  cap_name :: string
  cap_description :: string
  chains :: "string list"
  protocols :: "string list"
  operations :: "string list"

text \<open>\<open>Omit<RegisteredAgent, 'registeredAt' | 'lastSeen' | 'reputation'>\<close> is the base
  record; \<open>RegisteredAgent\<close> extends it. Dates are milliseconds since the epoch.\<close>

record AgentDescriptor =
  agent_id :: string
  agent_name :: string
  endpoint :: string
  capabilities :: "AgentCapability list"

record RegisteredAgent = AgentDescriptor +
  registeredAt :: int
  lastSeen :: int
  reputation :: int

datatype MessageType = Request | Response | Event | Delegation

datatype DelegationStatus = Pending | InProgress | Completed | Failed

record Task =
  task_type :: string
  task_description :: string
  task_parameters :: jsval

text \<open>The payload objects the service builds are \<open>{taskId, task}\<close> and
  \<open>{taskId, status, result, error}\<close>; any other payload a caller passes is a plain value.\<close>

datatype Payload =
    DelegationPayload string Task
  | ResponsePayload string DelegationStatus jsval "string option"
  | OtherPayload jsval

record MessageInput =
  msg_from :: string
  msg_to :: string
  msg_type :: MessageType
  payload :: Payload
  signature :: "string option"

record AgentMessage = MessageInput +
  timestamp :: int

record DelegationInput =
  fromAgent :: string
  toAgent :: string
  task :: Task
  result :: jsval
  error :: "string option"

record TaskDelegation = DelegationInput +
  taskId :: string
  status :: DelegationStatus

text \<open>
  The three stores of the service. \<open>agents\<close> is iterated by \<open>discoverAgents\<close> and
  \<open>listAgents\<close>, so it keeps the insertion order of a JavaScript \<open>Map\<close>: an association
  list. The other two are only looked up by key.
\<close>

record AgentCoordinatorService =
  agents :: "(string \<times> RegisteredAgent) list"
  messages :: "string \<rightharpoonup> AgentMessage list"
  delegations :: "string \<rightharpoonup> TaskDelegation"

definition initialService :: AgentCoordinatorService where
  "initialService = \<lparr> agents = [], messages = Map.empty, delegations = Map.empty \<rparr>"

datatype coordinator_error =
    AgentNotFound string
  | DelegationNotFound string
  | NoAgentWithCapability string

subsection \<open>The insertion-ordered \<open>Map\<close>\<close>

text \<open>\<open>Map.prototype.set\<close>: an existing key keeps its position and gets the new value, a
  new key goes to the end. \<open>Map.prototype.get\<close> reads the entry of the key.\<close>

fun mapSet :: "'k \<Rightarrow> 'v \<Rightarrow> ('k \<times> 'v) list \<Rightarrow> ('k \<times> 'v) list" where
  "mapSet k v [] = [(k, v)]"
| "mapSet k v ((k', v') # rest) =
     (if k' = k then (k, v) # rest else (k', v') # mapSet k v rest)"

fun mapGet :: "('k \<times> 'v) list \<Rightarrow> 'k \<Rightarrow> 'v option" where
  "mapGet [] k = None"
| "mapGet ((k', v') # rest) k = (if k' = k then Some v' else mapGet rest k)"

definition mapValues :: "('k \<times> 'v) list \<Rightarrow> 'v list" where
  "mapValues m = map snd m"

subsection \<open>\<open>Array.prototype.sort\<close> with a comparator\<close>

text \<open>The language's sort is stable and orders by the sign of the comparator; it is
  modelled by a stable insertion sort.\<close>

fun insertSorted :: "('a \<Rightarrow> 'a \<Rightarrow> int) \<Rightarrow> 'a \<Rightarrow> 'a list \<Rightarrow> 'a list" where
  "insertSorted cmp x [] = [x]"
| "insertSorted cmp x (y # ys) =
     (if cmp x y \<le> 0 then x # y # ys else y # insertSorted cmp x ys)"

definition arraySort :: "('a \<Rightarrow> 'a \<Rightarrow> int) \<Rightarrow> 'a list \<Rightarrow> 'a list" where
  "arraySort cmp xs = foldr (insertSorted cmp) xs []"

section \<open>Operations of the registry\<close>

text \<open>\<open>registerAgent\<close> reads the clock twice (\<open>new Date()\<close> for each stamp); the two
  readings are arguments. It returns the stored agent and the new state.\<close>

definition registerAgent ::
  "AgentCoordinatorService \<Rightarrow> AgentDescriptor \<Rightarrow> int \<Rightarrow> int
     \<Rightarrow> RegisteredAgent \<times> AgentCoordinatorService" where
  "registerAgent st agent now1 now2 =
     (let registeredAgent =
            \<lparr> agent_id = agent_id agent, agent_name = agent_name agent,
              endpoint = endpoint agent, capabilities = capabilities agent,
              registeredAt = now1, lastSeen = now2, reputation = 100 \<rparr>
      in (registeredAgent,
          st\<lparr> agents := mapSet (agent_id agent) registeredAgent (agents st) \<rparr>))"

definition capMatches :: "string \<Rightarrow> AgentCapability \<Rightarrow> bool" where
  "capMatches capability cap =
     (capability \<in> set (operations cap) \<or>
      capability \<in> set (protocols cap) \<or>
      capability \<in> set (chains cap))"

definition hasCapability :: "string \<Rightarrow> RegisteredAgent \<Rightarrow> bool" where
  "hasCapability capability agent = list_ex (capMatches capability) (capabilities agent)"

definition byReputationDesc :: "RegisteredAgent \<Rightarrow> RegisteredAgent \<Rightarrow> int" where
  "byReputationDesc a b = reputation b - reputation a"

definition discoverAgents :: "AgentCoordinatorService \<Rightarrow> string \<Rightarrow> RegisteredAgent list" where
  "discoverAgents st capability =
     arraySort byReputationDesc
       (filter (hasCapability capability) (mapValues (agents st)))"

definition listAgents :: "AgentCoordinatorService \<Rightarrow> RegisteredAgent list" where
  "listAgents st = mapValues (agents st)"

text \<open>\<open>sendMessage\<close> stamps the message with \<open>Date.now()\<close> (the argument \<open>now\<close>) and
  appends it to the recipient's queue, creating the queue when it is absent.\<close>

definition sendMessage ::
  "AgentCoordinatorService \<Rightarrow> MessageInput \<Rightarrow> int \<Rightarrow> AgentCoordinatorService" where
  "sendMessage st message now =
     (let fullMessage =
            \<lparr> msg_from = msg_from message, msg_to = msg_to message,
              msg_type = msg_type message, payload = payload message,
              signature = signature message, timestamp = now \<rparr>;
          recipientMessages =
            (case messages st (msg_to message) of None \<Rightarrow> [] | Some ms \<Rightarrow> ms)
      in st\<lparr> messages := (messages st)(msg_to message \<mapsto> recipientMessages @ [fullMessage]) \<rparr>)"

definition receiveMessages ::
  "AgentCoordinatorService \<Rightarrow> string \<Rightarrow> AgentMessage list \<times> AgentCoordinatorService" where
  "receiveMessages st agentId =
     (let msgs = (case messages st agentId of None \<Rightarrow> [] | Some ms \<Rightarrow> ms)
      in (msgs, st\<lparr> messages := (messages st)(agentId := None) \<rparr>))"

text \<open>\<open>delegateTask\<close> draws the task id from \<open>crypto.randomUUID()\<close> (the argument
  \<open>uuid\<close>) and sends the delegation message at time \<open>now\<close>.\<close>

definition delegateTask ::
  "AgentCoordinatorService \<Rightarrow> DelegationInput \<Rightarrow> string \<Rightarrow> int
     \<Rightarrow> TaskDelegation \<times> AgentCoordinatorService" where
  "delegateTask st delegation uuid now =
     (let fullDelegation =
            \<lparr> fromAgent = fromAgent delegation, toAgent = toAgent delegation,
              task = task delegation, result = result delegation, error = error delegation,
              taskId = uuid, status = Pending \<rparr>;
          st1 = st\<lparr> delegations := (delegations st)(uuid \<mapsto> fullDelegation) \<rparr>;
          st2 = sendMessage st1
                  \<lparr> msg_from = fromAgent delegation, msg_to = toAgent delegation,
                    msg_type = Delegation,
                    payload = DelegationPayload uuid (task delegation),
                    signature = None \<rparr> now
      in (fullDelegation, st2))"

text \<open>\<open>updateDelegation\<close>: the optional arguments \<open>result\<close> and \<open>error\<close> are
  \<open>JUndefined\<close> and \<open>None\<close> when the caller leaves them out; the fields are written under
  \<open>if (result)\<close> and \<open>if (error)\<close>.\<close>

definition updateDelegation ::
  "AgentCoordinatorService \<Rightarrow> string \<Rightarrow> DelegationStatus \<Rightarrow> jsval \<Rightarrow> string option \<Rightarrow> int
     \<Rightarrow> coordinator_error + AgentCoordinatorService" where
  "updateDelegation st tid newStatus res err now =
     (case delegations st tid of
        None \<Rightarrow> Inl (DelegationNotFound tid)
      | Some delegation \<Rightarrow>
          (let d1 = delegation\<lparr> status := newStatus \<rparr>;
               d2 = (if truthy res then d1\<lparr> result := res \<rparr> else d1);
               d3 = (if truthyStr err then d2\<lparr> error := err \<rparr> else d2);
               st1 = st\<lparr> delegations := (delegations st)(tid \<mapsto> d3) \<rparr>
           in Inr (sendMessage st1
                     \<lparr> msg_from = toAgent d3, msg_to = fromAgent d3,
                       msg_type = Response,
                       payload = ResponsePayload tid newStatus res err,
                       signature = None \<rparr> now)))"

definition getDelegation :: "AgentCoordinatorService \<Rightarrow> string \<Rightarrow> TaskDelegation option" where
  "getDelegation st tid = delegations st tid"

definition updateReputation ::
  "AgentCoordinatorService \<Rightarrow> string \<Rightarrow> int \<Rightarrow> int
     \<Rightarrow> coordinator_error + AgentCoordinatorService" where
  "updateReputation st agentId delta now =
     (case mapGet (agents st) agentId of
        None \<Rightarrow> Inl (AgentNotFound agentId)
      | Some agent \<Rightarrow>
          (let agent' = agent\<lparr> reputation := max 0 (min 200 (reputation agent + delta)),
                               lastSeen := now \<rparr>
           in Inr (st\<lparr> agents := mapSet agentId agent' (agents st) \<rparr>)))"

subsection \<open>Workflows\<close>

record WorkflowStep =
  agentCapability :: string
  step_task :: jsval

record Workflow =
  workflow_name :: string
  steps :: "WorkflowStep list"

record StepResult =
  step :: string
  agent :: string
  step_result :: TaskDelegation

text \<open>
  The loop of \<open>composeWorkflow\<close>. The \<open>i\<close>-th iteration (from 0) delegates with the task
  id \<open>uuids i\<close> at time \<open>clock i\<close>: the values \<open>crypto.randomUUID()\<close> and \<open>Date.now()\<close>
  return there. A \<open>throw\<close> leaves the service as the earlier iterations made it, so the
  outcome comes with the state.
\<close>

fun composeSteps ::
  "(nat \<Rightarrow> string) \<Rightarrow> (nat \<Rightarrow> int) \<Rightarrow> string \<Rightarrow> nat \<Rightarrow> WorkflowStep list
     \<Rightarrow> StepResult list \<Rightarrow> AgentCoordinatorService
     \<Rightarrow> (coordinator_error + StepResult list) \<times> AgentCoordinatorService" where
  "composeSteps uuids clock wname i [] results st = (Inr results, st)"
| "composeSteps uuids clock wname i (s # rest) results st =
     (case discoverAgents st (agentCapability s) of
        [] \<Rightarrow> (Inl (NoAgentWithCapability (agentCapability s)), st)
      | bestAgent # others \<Rightarrow>
          (case delegateTask st
                  \<lparr> fromAgent = ''coordinator'', toAgent = agent_id bestAgent,
                    task = \<lparr> task_type = agentCapability s,
                             task_description = ''Workflow step: '' @ wname,
                             task_parameters = step_task s \<rparr>,
                    result = JUndefined, error = None \<rparr>
                  (uuids i) (clock i) of
             (delegation, st') \<Rightarrow>
               composeSteps uuids clock wname (Suc i) rest
                 (results @ [\<lparr> step = agentCapability s, agent = agent_name bestAgent,
                               step_result = delegation \<rparr>]) st'))"

definition composeWorkflow ::
  "(nat \<Rightarrow> string) \<Rightarrow> (nat \<Rightarrow> int) \<Rightarrow> AgentCoordinatorService \<Rightarrow> Workflow
     \<Rightarrow> (coordinator_error + StepResult list) \<times> AgentCoordinatorService" where
  "composeWorkflow uuids clock st workflow =
     composeSteps uuids clock (workflow_name workflow) 0 (steps workflow) [] st"

section \<open>Numbers and their text (the language runtime)\<close>

text \<open>
  A JavaScript number is an IEEE 754 binary64 value. The finite ones are rationals, and an
  arithmetic operation returns the exact result rounded to the nearest representable
  value, ties to the even significand. \<open>toDouble\<close> is that rounding for the normal range
  (no overflow to infinity, no subnormals), which covers every quantity computed from a
  \<open>uint128\<close> rate here: for positive \<open>x\<close> with \<open>2 ^ e \<le> x < 2 ^ (e + 1)\<close> the neighbours
  are the multiples of \<open>2 ^ (e - 52)\<close>.
\<close>

function bitLength :: "int \<Rightarrow> int" where
  "bitLength n = (if n \<le> 0 then 0 else 1 + bitLength (n div 2))"
  by pat_completeness auto
termination
  by (relation "measure nat") auto

declare bitLength.simps [simp del]

definition pow2 :: "int \<Rightarrow> rat" where
  "pow2 k = (if 0 \<le> k then 2 ^ nat k else 1 / 2 ^ nat (- k))"

definition roundHalfEven :: "rat \<Rightarrow> int" where
  "roundHalfEven q =
     (let f = \<lfloor>q\<rfloor>; d = q - of_int f
      in if d < 1 / 2 then f else if 1 / 2 < d then f + 1 else if even f then f else f + 1)"

definition exponentOf :: "rat \<Rightarrow> int" where
  "exponentOf x =
     (case quotient_of x of (p, q) \<Rightarrow>
        (let k = bitLength p - bitLength q
         in if pow2 k \<le> x then k else k - 1))"

definition roundPos :: "rat \<Rightarrow> rat" where
  "roundPos x =
     (let ulp = pow2 (exponentOf x - 52) in of_int (roundHalfEven (x / ulp)) * ulp)"

definition toDouble :: "rat \<Rightarrow> rat" where
  "toDouble x = (if x = 0 then 0 else if x < 0 then - roundPos (- x) else roundPos x)"

text \<open>\<open>Number(b)\<close> of a bigint, and \<open>/\<close> and \<open>*\<close> on numbers.\<close>

definition numberOfBigInt :: "int \<Rightarrow> rat" where
  "numberOfBigInt b = toDouble (of_int b)"

definition numDiv :: "rat \<Rightarrow> rat \<Rightarrow> rat" where
  "numDiv a b = toDouble (a / b)"

definition numMul :: "rat \<Rightarrow> rat \<Rightarrow> rat" where
  "numMul a b = toDouble (a * b)"

text \<open>The decimal text of a non-negative integer (\<open>toString\<close> of a bigint that is not
  negative).\<close>

definition digitChar :: "nat \<Rightarrow> char" where
  "digitChar d = ''0123456789'' ! d"

fun natToString :: "nat \<Rightarrow> string" where
  "natToString n =
     (if n < 10 then [digitChar n] else natToString (n div 10) @ [digitChar (n mod 10)])"

declare natToString.simps [simp del]

text \<open>
  \<open>x.toFixed(2)\<close> for \<open>0 \<le> x < 1e21\<close>: with \<open>n\<close> the integer for which \<open>n / 100\<close> is
  closest to \<open>x\<close> (the larger one of two), the digits of \<open>n\<close>, padded on the left with
  zeros to three digits, with a point before the last two.
\<close>

definition toFixed2 :: "rat \<Rightarrow> string" where
  "toFixed2 x =
     (let n = nat \<lfloor>x * 100 + 1 / 2\<rfloor>;
          m = natToString n;
          m' = replicate (3 - length m) (CHR ''0'') @ m
      in take (length m' - 2) m' @ ''.'' @ drop (length m' - 2) m')"

section \<open>The blockchain tools (tools/blockchain-tools.ts)\<close>

text \<open>
  A tool's \<open>try\<close> block awaits calls of the chain client or the ABI encoder. What such a
  call does is given to the model as its outcome: it returns a value, or it throws an
  \<open>Error\<close> with a message. A tool returns an object literal, modelled by the list of its
  properties.
\<close>

datatype 'a outcome = Throws string | Returns 'a

type_synonym js_object = "(string \<times> jsval) list"

datatype ChainName = Base | Mainnet | Arbitrum | Optimism | Polygon

fun chainName :: "ChainName \<Rightarrow> string" where
  "chainName Base = ''base''"
| "chainName Mainnet = ''mainnet''"
| "chainName Arbitrum = ''arbitrum''"
| "chainName Optimism = ''optimism''"
| "chainName Polygon = ''polygon''"

text \<open>\<open>CHAINS[chain].id\<close>: the ids of the chain objects of the client library.\<close>

fun chainId :: "ChainName \<Rightarrow> int" where
  "chainId Base = 8453"
| "chainId Mainnet = 1"
| "chainId Arbitrum = 42161"
| "chainId Optimism = 10"
| "chainId Polygon = 137"

record CallParams =
  chain :: ChainName
  contractAddress :: string
  functionName :: string
  abi :: "jsval list"
  args :: "jsval list option"

record BuildParams = CallParams +
  tx_value :: "string option"

record SimulateParams =
  sim_chain :: ChainName
  sim_from :: string
  sim_to :: string
  sim_data :: "string option"
  sim_value :: "string option"

record AaveParams =
  aave_chain :: ChainName
  asset :: string

text \<open>The entries of the decoded reserve tuple that the tool reads: index 2, 4, 6 and 8.\<close>

record ReserveData =
  currentLiquidityRate :: nat
  currentVariableBorrowRate :: nat
  lastUpdateTimestamp :: nat
  aTokenAddress :: jsval

record PoolParams =
  pool_chain :: ChainName
  poolAddress :: string

record PoolReads =
  token0 :: jsval
  token1 :: jsval
  fee :: nat
  liquidity :: nat
  sqrtPriceX96 :: nat
  tick :: int

record BalanceParams =
  address :: string
  tokenAddress :: string
  balance_chains :: "ChainName list"

text \<open>\<open>callContract\<close>: the outcome is that of \<open>client.readContract\<close>.\<close>

definition callContract :: "CallParams \<Rightarrow> jsval outcome \<Rightarrow> js_object" where
  "callContract params readContract =
     (case readContract of
        Returns res \<Rightarrow>
          [(''success'', JBool True),
           (''chain'', JStr (chainName (chain params))),
           (''contract'', JStr (contractAddress params)),
           (''function'', JStr (functionName params)),
           (''result'', res)]
      | Throws message \<Rightarrow>
          [(''success'', JBool False),
           (''error'', JStr message),
           (''chain'', JStr (chainName (chain params))),
           (''contract'', JStr (contractAddress params))])"

text \<open>\<open>simulateTransactionTool\<close>: the first outcome is that of \<open>client.call\<close> (its
  \<open>data\<close>), including a throw while its argument is built (\<open>BigInt(value)\<close>); the second
  is that of \<open>client.estimateGas\<close>, which is awaited only after the first returned.\<close>

definition simulationFailed :: "SimulateParams \<Rightarrow> string \<Rightarrow> js_object" where
  "simulationFailed params message =
     [(''success'', JBool False),
      (''chain'', JStr (chainName (sim_chain params))),
      (''simulation'', JObj [(''willSucceed'', JBool False), (''error'', JStr message)])]"

definition simulateTransactionTool ::
  "SimulateParams \<Rightarrow> jsval outcome \<Rightarrow> nat outcome \<Rightarrow> js_object" where
  "simulateTransactionTool params call estimateGas =
     (case call of
        Throws message \<Rightarrow> simulationFailed params message
      | Returns data \<Rightarrow>
          (case estimateGas of
             Throws message \<Rightarrow> simulationFailed params message
           | Returns gasEstimate \<Rightarrow>
               [(''success'', JBool True),
                (''chain'', JStr (chainName (sim_chain params))),
                (''simulation'',
                   JObj [(''willSucceed'', JBool True),
                         (''result'', data),
                         (''estimatedGas'', JStr (natToString gasEstimate))])]))"

text \<open>\<open>buildTransactionTool\<close>: the outcome is that of \<open>encodeFunctionData\<close>;
  \<open>value || '0'\<close> replaces an absent or empty value.\<close>

definition buildTransactionTool :: "BuildParams \<Rightarrow> string outcome \<Rightarrow> js_object" where
  "buildTransactionTool params encodeFunctionData =
     (case encodeFunctionData of
        Returns data \<Rightarrow>
          [(''success'', JBool True),
           (''chain'', JStr (chainName (chain params))),
           (''transaction'',
              JObj [(''to'', JStr (contractAddress params)),
                    (''data'', JStr data),
                    (''value'', JStr (if truthyStr (tx_value params)
                                      then the (tx_value params) else ''0'')),
                    (''chainId'', JNum (chainId (chain params)))]),
           (''instructions'',
              JStr ''User should sign and broadcast this transaction using their wallet'')]
      | Throws message \<Rightarrow>
          [(''success'', JBool False),
           (''error'', JStr message)])"

text \<open>The rate conversion of \<open>getAaveDataTool\<close>:
  \<open>(Number(rate) / 1e27) * 100\<close>, then \<open>.toFixed(2) + '%'\<close>. The literal \<open>1e27\<close> is the
  number nearest to \<open>10 ^ 27\<close>.\<close>

definition rateToAPY :: "nat \<Rightarrow> rat" where
  "rateToAPY rate = numMul (numDiv (numberOfBigInt (int rate)) (toDouble (10 ^ 27))) 100"

definition apyString :: "nat \<Rightarrow> string" where
  "apyString rate = toFixed2 (rateToAPY rate) @ ''%''"

text \<open>The one signature that \<open>getAaveDataTool\<close> passes to \<open>parseAbi\<close>.\<close>

definition aaveReserveSignature :: string where
  "aaveReserveSignature =
     ''function getReserveData(address asset) view returns (tuple(uint256 configuration, '' @
     ''uint128 liquidityIndex, uint128 currentLiquidityRate, uint128 variableBorrowIndex, '' @
     ''uint128 currentVariableBorrowRate, uint128 currentStableBorrowRate, '' @
     ''uint40 lastUpdateTimestamp, uint16 id, address aTokenAddress, '' @
     ''address stableDebtTokenAddress, address variableDebtTokenAddress, '' @
     ''address interestRateStrategyAddress, uint128 accruedToTreasury, uint128 unbacked, '' @
     ''uint128 isolationModeTotalDebt))''"

text \<open>
  \<open>getAaveDataTool\<close>: inside the \<open>try\<close> block the argument of \<open>client.readContract\<close> is
  built first, which calls \<open>parseAbi\<close> on the signature, and then the read is awaited.
  \<open>parseAbi\<close> is the client library's parser, given as a function from the signatures to
  its outcome; \<open>readContract\<close> is the outcome of the read, which is reached only when the
  parser returned; \<open>toISOString\<close> is the runtime's rendering of a time in milliseconds.
  A throw of either step is caught by the same \<open>catch\<close>.
\<close>

definition aaveFailed :: "AaveParams \<Rightarrow> string \<Rightarrow> js_object" where
  "aaveFailed params message =
     [(''success'', JBool False),
      (''error'', JStr message),
      (''chain'', JStr (chainName (aave_chain params))),
      (''protocol'', JStr ''Aave V3'')]"

definition getAaveDataTool ::
  "(string list \<Rightarrow> jsval list outcome) \<Rightarrow> (rat \<Rightarrow> string) \<Rightarrow> AaveParams
     \<Rightarrow> ReserveData outcome \<Rightarrow> js_object" where
  "getAaveDataTool parseAbi toISOString params readContract =
     (case parseAbi [aaveReserveSignature] of
        Throws message \<Rightarrow> aaveFailed params message
      | Returns parsed \<Rightarrow>
          (case readContract of
             Throws message \<Rightarrow> aaveFailed params message
           | Returns reserveData \<Rightarrow>
               [(''success'', JBool True),
                (''chain'', JStr (chainName (aave_chain params))),
                (''protocol'', JStr ''Aave V3''),
                (''asset'', JStr (asset params)),
                (''data'',
                   JObj [(''supplyAPY'', JStr (apyString (currentLiquidityRate reserveData))),
                         (''borrowAPY'',
                            JStr (apyString (currentVariableBorrowRate reserveData))),
                         (''aTokenAddress'', aTokenAddress reserveData),
                         (''lastUpdate'',
                            JStr (toISOString
                                    (numMul
                                       (numberOfBigInt (int (lastUpdateTimestamp reserveData)))
                                       1000)))])]))"

text \<open>
  The client library's \<open>parseAbi\<close>, as far as \<open>getAaveDataTool\<close> depends on it. In the
  library's grammar of human-readable signatures a tuple type is a parenthesised list of
  parameters; there is no keyword \<open>tuple\<close>, and a parameter written \<open>tuple(...)\<close> makes
  the parser throw an error whose message begins \<open>Invalid ABI parameter.\<close> (the details
  the library appends are left out). Other signatures are not analysed here: they are
  returned as they are, and no tool inspects the parsed items.
\<close>

fun containsStr :: "string \<Rightarrow> string \<Rightarrow> bool" where
  "containsStr needle [] = (needle = [])"
| "containsStr needle (c # cs) =
     (take (length needle) (c # cs) = needle \<or> containsStr needle cs)"

definition viemParseAbi :: "string list \<Rightarrow> jsval list outcome" where
  "viemParseAbi signatures =
     (if list_ex (\<lambda>s. containsStr ''(tuple('' s \<or> containsStr '', tuple('' s) signatures
      then Throws ''Invalid ABI parameter.''
      else Returns (map JStr signatures))"

text \<open>\<open>getUniswapPoolTool\<close>: the outcome is that of building and awaiting
  \<open>Promise.all\<close> over the five reads (all values, or the first throw or rejection; the
  signatures given to \<open>parseAbi\<close> there have no tuple type); \<open>numberToString\<close> is the runtime's conversion of a
  number to text in \<open>Number(fee) / 10000 + '%'\<close>.\<close>

definition getUniswapPoolTool ::
  "(rat \<Rightarrow> string) \<Rightarrow> PoolParams \<Rightarrow> PoolReads outcome \<Rightarrow> js_object" where
  "getUniswapPoolTool numberToString params reads =
     (case reads of
        Returns r \<Rightarrow>
          [(''success'', JBool True),
           (''chain'', JStr (chainName (pool_chain params))),
           (''protocol'', JStr ''Uniswap V3''),
           (''pool'', JStr (poolAddress params)),
           (''data'',
              JObj [(''token0'', token0 r),
                    (''token1'', token1 r),
                    (''fee'',
                       JStr (numberToString (numDiv (numberOfBigInt (int (fee r))) 10000)
                             @ ''%'')),
                    (''liquidity'', JStr (natToString (liquidity r))),
                    (''currentTick'', JNum (tick r)),
                    (''sqrtPriceX96'', JStr (natToString (sqrtPriceX96 r)))])]
      | Throws message \<Rightarrow>
          [(''success'', JBool False),
           (''error'', JStr message),
           (''chain'', JStr (chainName (pool_chain params))),
           (''protocol'', JStr ''Uniswap V3'')])"

text \<open>
  \<open>getMultiChainBalanceTool\<close>: one read is started per entry of \<open>chains\<close>, each in its
  own \<open>try\<close>/\<open>catch\<close>. \<open>balanceOf i\<close> is the outcome of the read started for the \<open>i\<close>-th
  entry (a throw of any step of its \<open>try\<close> block included), and \<open>settledAt i\<close> is the
  time at which it settles. A read assigns its chain's property of \<open>balances\<close> when it
  settles, so the assignments are made in the order of settling (in request order among
  reads that settle together): the properties appear in completion order, and a chain
  that is requested twice keeps the read that settled last. No step of the outer \<open>try\<close>
  block throws, so its \<open>catch\<close> is never entered.
\<close>

definition balanceSlot :: "nat outcome \<Rightarrow> string" where
  "balanceSlot read =
     (case read of
        Returns balance \<Rightarrow> natToString balance
      | Throws message \<Rightarrow> ''Error: '' @ message)"

definition settledReads ::
  "ChainName list \<Rightarrow> (nat \<Rightarrow> nat outcome) \<Rightarrow> (nat \<Rightarrow> nat)
     \<Rightarrow> (ChainName \<times> nat outcome) list" where
  "settledReads chainList balanceOf settledAt =
     map (\<lambda>i. (chainList ! i, balanceOf i)) (sort_key settledAt [0..<length chainList])"

fun assignBalances :: "(ChainName \<times> nat outcome) list \<Rightarrow> js_object \<Rightarrow> js_object" where
  "assignBalances [] balances = balances"
| "assignBalances ((c, read) # rest) balances =
     assignBalances rest (mapSet (chainName c) (JStr (balanceSlot read)) balances)"

definition getMultiChainBalanceTool ::
  "BalanceParams \<Rightarrow> (nat \<Rightarrow> nat outcome) \<Rightarrow> (nat \<Rightarrow> nat) \<Rightarrow> js_object" where
  "getMultiChainBalanceTool params balanceOf settledAt =
     [(''success'', JBool True),
      (''address'', JStr (address params)),
      (''token'', JStr (tokenAddress params)),
      (''balances'',
         JObj (assignBalances (settledReads (balance_chains params) balanceOf settledAt) []))]"

text \<open>Reading a property of an object, and a slot of the \<open>balances\<close> object of a result.\<close>

definition getProp :: "js_object \<Rightarrow> string \<Rightarrow> jsval option" where
  "getProp obj k = mapGet obj k"

definition balanceOn :: "js_object \<Rightarrow> ChainName \<Rightarrow> jsval option" where
  "balanceOn response c =
     (case getProp response ''balances'' of
        Some (JObj balances) \<Rightarrow> getProp balances (chainName c)
      | _ \<Rightarrow> None)"

definition dataField :: "js_object \<Rightarrow> string \<Rightarrow> jsval option" where
  "dataField response k =
     (case getProp response ''data'' of
        Some (JObj d) \<Rightarrow> getProp d k
      | _ \<Rightarrow> None)"

definition isDigit :: "char \<Rightarrow> bool" where
  "isDigit ch = (ch \<in> set ''0123456789'')"

section \<open>Notions used to state the properties\<close>

text \<open>The queue of an agent, read without clearing it; an absent queue is empty.\<close>

definition mailbox :: "AgentCoordinatorService \<Rightarrow> string \<Rightarrow> AgentMessage list" where
  "mailbox st agentId = (case messages st agentId of None \<Rightarrow> [] | Some ms \<Rightarrow> ms)"

text \<open>A message as it is stored by a send at time \<open>now\<close>.\<close>

definition stamp :: "MessageInput \<Rightarrow> int \<Rightarrow> AgentMessage" where
  "stamp message now =
     \<lparr> msg_from = msg_from message, msg_to = msg_to message,
       msg_type = msg_type message, payload = payload message,
       signature = signature message, timestamp = now \<rparr>"

text \<open>A sequence of \<open>sendMessage\<close> calls, each with the clock reading of its call.\<close>

fun sendAll ::
  "AgentCoordinatorService \<Rightarrow> (MessageInput \<times> int) list \<Rightarrow> AgentCoordinatorService" where
  "sendAll st [] = st"
| "sendAll st ((message, now) # rest) = sendAll (sendMessage st message now) rest"

text \<open>What a workflow step is expected to produce: the agent that \<open>discoverAgents\<close>
  lists first for the step's capability (only used where the list is not empty), the
  delegation record of the step, the message that announces it, and the step's entry in
  the result list.\<close>

definition bestAgent :: "AgentCoordinatorService \<Rightarrow> string \<Rightarrow> RegisteredAgent" where
  "bestAgent st capability = hd (discoverAgents st capability)"

definition stepTask :: "string \<Rightarrow> WorkflowStep \<Rightarrow> Task" where
  "stepTask wname s =
     \<lparr> task_type = agentCapability s, task_description = ''Workflow step: '' @ wname,
       task_parameters = step_task s \<rparr>"

definition stepDelegation ::
  "(nat \<Rightarrow> string) \<Rightarrow> string \<Rightarrow> AgentCoordinatorService \<Rightarrow> nat \<Rightarrow> WorkflowStep
     \<Rightarrow> TaskDelegation" where
  "stepDelegation uuids wname st i s =
     \<lparr> fromAgent = ''coordinator'', toAgent = agent_id (bestAgent st (agentCapability s)),
       task = stepTask wname s, result = JUndefined, error = None,
       taskId = uuids i, status = Pending \<rparr>"

definition stepMessage ::
  "(nat \<Rightarrow> string) \<Rightarrow> (nat \<Rightarrow> int) \<Rightarrow> string \<Rightarrow> AgentCoordinatorService \<Rightarrow> nat
     \<Rightarrow> WorkflowStep \<Rightarrow> AgentMessage" where
  "stepMessage uuids clock wname st i s =
     \<lparr> msg_from = ''coordinator'', msg_to = agent_id (bestAgent st (agentCapability s)),
       msg_type = Delegation, payload = DelegationPayload (uuids i) (stepTask wname s),
       signature = None, timestamp = clock i \<rparr>"

definition stepOutcome ::
  "(nat \<Rightarrow> string) \<Rightarrow> string \<Rightarrow> AgentCoordinatorService \<Rightarrow> nat \<Rightarrow> WorkflowStep
     \<Rightarrow> StepResult" where
  "stepOutcome uuids wname st i s =
     \<lparr> step = agentCapability s, agent = agent_name (bestAgent st (agentCapability s)),
       step_result = stepDelegation uuids wname st i s \<rparr>"

text \<open>The request and the state after one iteration of the loop on a step that has a
  matching agent.\<close>

definition stepRequest :: "string \<Rightarrow> AgentCoordinatorService \<Rightarrow> WorkflowStep \<Rightarrow> DelegationInput" where
  "stepRequest w st s =
     \<lparr> fromAgent = ''coordinator'', toAgent = agent_id (bestAgent st (agentCapability s)),
       task = stepTask w s, result = JUndefined, error = None \<rparr>"

definition afterStep ::
  "(nat \<Rightarrow> string) \<Rightarrow> (nat \<Rightarrow> int) \<Rightarrow> string \<Rightarrow> nat \<Rightarrow> WorkflowStep
     \<Rightarrow> AgentCoordinatorService \<Rightarrow> AgentCoordinatorService" where
  "afterStep u c w i s st = snd (delegateTask st (stepRequest w st s) (u i) (c i))"

section \<open>Example inputs\<close>

definition exampleCapability :: "string \<Rightarrow> string \<Rightarrow> string \<Rightarrow> AgentCapability" where
  "exampleCapability c p op =
     \<lparr> cap_id = ''cap-1'', cap_name = ''capability'', cap_description = ''example'',
       chains = [c], protocols = [p], operations = [op] \<rparr>"

definition exampleAgent :: "string \<Rightarrow> string \<Rightarrow> AgentCapability list \<Rightarrow> AgentDescriptor" where
  "exampleAgent i n caps =
     \<lparr> agent_id = i, agent_name = n, endpoint = ''https://agent.example'',
       capabilities = caps \<rparr>"

definition yieldAgent :: AgentDescriptor where
  "yieldAgent =
     exampleAgent ''yield-1'' ''Yield Agent''
       [exampleCapability ''base'' ''aave'' ''yield-analysis'']"

definition swapAgent :: AgentDescriptor where
  "swapAgent =
     exampleAgent ''swap-1'' ''Swap Agent'' [exampleCapability ''base'' ''uniswap'' ''swap'']"

definition twoAgents :: AgentCoordinatorService where
  "twoAgents =
     snd (registerAgent (snd (registerAgent initialService yieldAgent 1000 1001))
            swapAgent 2000 2001)"

definition promoted :: AgentCoordinatorService where
  "promoted =
     (case updateReputation twoAgents ''swap-1'' 50 3000 of
        Inr st \<Rightarrow> st | Inl e \<Rightarrow> twoAgents)"

definition yieldRequest :: DelegationInput where
  "yieldRequest =
     \<lparr> fromAgent = ''swap-1'', toAgent = ''yield-1'',
       task = \<lparr> task_type = ''balance'', task_description = ''read the USDC balance'',
                task_parameters = JStr ''USDC'' \<rparr>,
       result = JUndefined, error = None \<rparr>"

definition delegatedOnce :: AgentCoordinatorService where
  "delegatedOnce = snd (delegateTask twoAgents yieldRequest ''task-1'' 4000)"

definition completedWithZero :: AgentCoordinatorService where
  "completedWithZero =
     (case updateDelegation delegatedOnce ''task-1'' Completed (JNum 0) None 5000 of
        Inr st \<Rightarrow> st | Inl e \<Rightarrow> delegatedOnce)"

definition helloMessage :: "string \<Rightarrow> string \<Rightarrow> MessageInput" where
  "helloMessage sender recipient =
     \<lparr> msg_from = sender, msg_to = recipient, msg_type = Request,
       payload = OtherPayload (JStr ''hello''), signature = None \<rparr>"

definition exampleUuids :: "nat \<Rightarrow> string" where
  "exampleUuids n = ''uuid-'' @ replicate (Suc n) (CHR ''i'')"

definition exampleClock :: "nat \<Rightarrow> int" where
  "exampleClock n = 7000 + int n"

definition baseStep :: WorkflowStep where
  "baseStep = \<lparr> agentCapability = ''base'', step_task = JStr ''scan'' \<rparr>"

definition swapStep :: WorkflowStep where
  "swapStep = \<lparr> agentCapability = ''swap'', step_task = JNum 10 \<rparr>"

definition bridgeStep :: WorkflowStep where
  "bridgeStep = \<lparr> agentCapability = ''bridge'', step_task = JNull \<rparr>"

definition yieldStep :: WorkflowStep where
  "yieldStep = \<lparr> agentCapability = ''yield-analysis'', step_task = JNull \<rparr>"

definition failingWorkflow :: Workflow where
  "failingWorkflow =
     \<lparr> workflow_name = ''rebalance'', steps = [baseStep, swapStep, bridgeStep, yieldStep] \<rparr>"

definition goodWorkflow :: Workflow where
  "goodWorkflow = \<lparr> workflow_name = ''rebalance'', steps = [baseStep, yieldStep] \<rparr>"

definition exampleBuildParams :: BuildParams where
  "exampleBuildParams =
     \<lparr> chain = Base, contractAddress = ''0xA238Dd80C259a72e81d7e4664a9801593F98d1c5'',
       functionName = ''supply'', abi = [], args = None, tx_value = None \<rparr>"

fun exampleBalances :: "ChainName \<Rightarrow> nat outcome" where
  "exampleBalances Base = Returns 1500000"
| "exampleBalances Arbitrum = Throws ''HTTP request failed''"
| "exampleBalances c = Returns 0"

text \<open>The reads of the request \<open>[base, arbitrum, polygon]\<close> by position, and a completion
  order in which the last read settles first.\<close>

definition exampleReads :: "nat \<Rightarrow> nat outcome" where
  "exampleReads i =
     (if i = 0 then Returns 1500000
      else if i = 1 then Throws ''HTTP request failed''
      else Returns 0)"

definition exampleSettledAt :: "nat \<Rightarrow> nat" where
  "exampleSettledAt i = 3 - i"

definition exampleBalanceParams :: BalanceParams where
  "exampleBalanceParams =
     \<lparr> address = ''0x1111111111111111111111111111111111111111'',
       tokenAddress = ''0x833589fCD6eDb6E08f4c7C32D4f71b54bdA02913'',
       balance_chains = [Base, Arbitrum, Polygon] \<rparr>"

definition exampleAaveParams :: AaveParams where
  "exampleAaveParams =
     \<lparr> aave_chain = Base, asset = ''0x833589fCD6eDb6E08f4c7C32D4f71b54bdA02913'' \<rparr>"

definition exampleReserve :: ReserveData where
  "exampleReserve =
     \<lparr> currentLiquidityRate = 5 * 10 ^ 25, currentVariableBorrowRate = 7 * 10 ^ 25,
       lastUpdateTimestamp = 1700000000,
       aTokenAddress = JStr ''0x4e65fE4DbA92790696d040ac24Aa414708F5c0AB'' \<rparr>"

section \<open>Properties\<close>

subsection \<open>The insertion-ordered map\<close>

lemma mapGet_mapSet_same: "mapGet (mapSet k v m) k = Some v"
  by (induction m) auto

lemma mapGet_mapSet_other: "k' \<noteq> k \<Longrightarrow> mapGet (mapSet k v m) k' = mapGet m k'"
  by (induction m) auto

lemma map_fst_mapSet_present:
  "mapGet m k \<noteq> None \<Longrightarrow> map fst (mapSet k v m) = map fst m"
  by (induction m) auto

lemma map_fst_mapSet_absent:
  "mapGet m k = None \<Longrightarrow> map fst (mapSet k v m) = map fst m @ [k]"
  by (induction m) auto

lemma mapGet_None_iff: "mapGet m k = None \<longleftrightarrow> k \<notin> fst ` set m"
  by (induction m) (auto split: if_splits)

lemma distinct_mapSet: "distinct (map fst m) \<Longrightarrow> distinct (map fst (mapSet k v m))"
  by (cases "mapGet m k")
     (auto simp: map_fst_mapSet_present map_fst_mapSet_absent mapGet_None_iff)

lemma filter_key_distinct:
  "distinct (map fst m) \<Longrightarrow> mapGet m k = Some v \<Longrightarrow> filter (\<lambda>e. fst e = k) m = [(k, v)]"
proof (induction m)
  case Nil
  then show ?case by simp
next
  case (Cons e m)
  obtain k' v' where e: "e = (k', v')" by (cases e)
  show ?case
  proof (cases "k' = k")
    case True
    with Cons e have "k \<notin> fst ` set m" and v: "v' = v" by auto
    then have "filter (\<lambda>e. fst e = k) m = []" by (auto simp: filter_empty_conv)
    with True e v show ?thesis by simp
  next
    case False
    with Cons e show ?thesis by auto
  qed
qed

subsection \<open>The stable sort\<close>

lemma mset_insertSorted: "mset (insertSorted cmp x xs) = add_mset x (mset xs)"
  by (induction xs) auto

lemma mset_arraySort: "mset (arraySort cmp xs) = mset xs"
  by (induction xs) (auto simp: arraySort_def mset_insertSorted)

lemma set_insertSorted: "set (insertSorted cmp x xs) = insert x (set xs)"
  by (induction xs) auto

lemma sorted_insertSorted:
  "sorted_wrt (\<lambda>a b. reputation b \<le> reputation a) xs \<Longrightarrow>
   sorted_wrt (\<lambda>a b. reputation b \<le> reputation a) (insertSorted byReputationDesc x xs)"
  by (induction xs) (auto simp: byReputationDesc_def set_insertSorted)

lemma sorted_arraySort:
  "sorted_wrt (\<lambda>a b. reputation b \<le> reputation a) (arraySort byReputationDesc xs)"
  by (induction xs) (auto simp: arraySort_def sorted_insertSorted)

text \<open>Stability: an element is moved only past elements of strictly higher reputation, so
  the elements of one reputation keep their relative order.\<close>

lemma filter_insertSorted:
  "filter (\<lambda>a. reputation a = r) (insertSorted byReputationDesc x xs) =
   (if reputation x = r then x # filter (\<lambda>a. reputation a = r) xs
    else filter (\<lambda>a. reputation a = r) xs)"
  by (induction xs) (auto simp: byReputationDesc_def)

lemma filter_arraySort:
  "filter (\<lambda>a. reputation a = r) (arraySort byReputationDesc xs) =
   filter (\<lambda>a. reputation a = r) xs"
  by (induction xs) (auto simp: arraySort_def filter_insertSorted)

lemma hasCapability_iff:
  "hasCapability tag a \<longleftrightarrow>
   (\<exists>cap \<in> set (capabilities a).
      tag \<in> set (operations cap) \<union> set (protocols cap) \<union> set (chains cap))"
  by (auto simp: hasCapability_def capMatches_def list_ex_iff)

subsection \<open>Discovery\<close>

text \<open>
  Claim C1. For every registry state and every tag, \<open>discoverAgents\<close> returns exactly the
  registered agents that have the tag among the operations, protocols or chains of one of
  their capabilities (as a multiset of the store's values), in descending order of
  reputation, and the agents of any one reputation appear in the order in which the store
  iterates them.
\<close>

theorem discoverAgents_spec:
  "mset (discoverAgents st tag) =
     mset (filter (\<lambda>a. \<exists>cap \<in> set (capabilities a).
              tag \<in> set (operations cap) \<union> set (protocols cap) \<union> set (chains cap))
            (listAgents st))
   \<and> sorted_wrt (\<lambda>a b. reputation b \<le> reputation a) (discoverAgents st tag)
   \<and> (\<forall>r. filter (\<lambda>a. reputation a = r) (discoverAgents st tag) =
           filter (\<lambda>a. reputation a = r)
             (filter (\<lambda>a. \<exists>cap \<in> set (capabilities a).
                tag \<in> set (operations cap) \<union> set (protocols cap) \<union> set (chains cap))
              (listAgents st)))"
proof -
  have eq: "hasCapability tag = (\<lambda>a. \<exists>cap \<in> set (capabilities a).
              tag \<in> set (operations cap) \<union> set (protocols cap) \<union> set (chains cap))"
    by (rule ext) (rule hasCapability_iff)
  show ?thesis
    unfolding discoverAgents_def listAgents_def eq[symmetric]
    by (simp add: mset_arraySort sorted_arraySort filter_arraySort)
qed

text \<open>The instance of the specification's example: two agents match \<open>base\<close>, the one
  registered later has reputation 150, the other 100, and the 150 one comes first.\<close>

theorem discoverAgents_spec_witness:
  "map reputation (listAgents promoted) = [100, 150]
   \<and> map reputation (discoverAgents promoted ''base'') = [150, 100]
   \<and> map agent_id (discoverAgents promoted ''base'') = [''swap-1'', ''yield-1'']
   \<and> sorted_wrt (\<lambda>a b. reputation b \<le> reputation a) (discoverAgents promoted ''base'')"
proof -
  have a: "map reputation (listAgents promoted) = [100, 150]" by code_simp
  have b: "map reputation (discoverAgents promoted ''base'') = [150, 100]" by code_simp
  have c: "map agent_id (discoverAgents promoted ''base'') = [''swap-1'', ''yield-1'']"
    by code_simp
  from a b c discoverAgents_spec [of promoted "''base''"] show ?thesis by blast
qed

subsection \<open>Reputation\<close>

text \<open>
  Claim C6. For a registered agent, \<open>updateReputation\<close> succeeds and stores the agent with
  reputation \<open>max 0 (min 200 (reputation + delta))\<close> and \<open>lastSeen\<close> set to the clock
  reading, leaving every other agent, the mailboxes and the delegations as they were; for
  a reputation within 0..200 a delta of +500 gives 200 and a delta of -500 gives 0; for an
  unknown id the call fails with the not-found error.
\<close>

theorem updateReputation_spec:
  "(mapGet (agents st) aid = Some a \<longrightarrow>
      (\<exists>st'. updateReputation st aid delta now = Inr st' \<and>
         mapGet (agents st') aid =
           Some (a\<lparr> reputation := max 0 (min 200 (reputation a + delta)), lastSeen := now \<rparr>) \<and>
         (\<forall>k. k \<noteq> aid \<longrightarrow> mapGet (agents st') k = mapGet (agents st) k) \<and>
         messages st' = messages st \<and> delegations st' = delegations st))
   \<and> (mapGet (agents st) aid = Some a \<and> 0 \<le> reputation a \<and> reputation a \<le> 200 \<longrightarrow>
         (\<exists>st' a'. updateReputation st aid 500 now = Inr st' \<and>
            mapGet (agents st') aid = Some a' \<and> reputation a' = 200) \<and>
         (\<exists>st' a'. updateReputation st aid (- 500) now = Inr st' \<and>
            mapGet (agents st') aid = Some a' \<and> reputation a' = 0))
   \<and> (mapGet (agents st) unknown = None \<longrightarrow>
         updateReputation st unknown delta now = Inl (AgentNotFound unknown))"
  by (auto simp: updateReputation_def mapGet_mapSet_same mapGet_mapSet_other)

theorem updateReputation_spec_witness:
  "map_option reputation (mapGet (agents twoAgents) ''swap-1'') = Some 100
   \<and> mapGet (agents twoAgents) ''nobody'' = None
   \<and> (\<exists>st' a'. updateReputation twoAgents ''swap-1'' 500 3000 = Inr st' \<and>
         mapGet (agents st') ''swap-1'' = Some a' \<and> reputation a' = 200)
   \<and> (\<exists>st' a'. updateReputation twoAgents ''swap-1'' (- 500) 3000 = Inr st' \<and>
         mapGet (agents st') ''swap-1'' = Some a' \<and> reputation a' = 0)
   \<and> updateReputation twoAgents ''nobody'' 7 3000 = Inl (AgentNotFound ''nobody'')"
proof -
  obtain a where a: "mapGet (agents twoAgents) ''swap-1'' = Some a" and r: "reputation a = 100"
    by (simp add: twoAgents_def registerAgent_def Let_def initialService_def yieldAgent_def
          swapAgent_def exampleAgent_def)
  have n: "mapGet (agents twoAgents) ''nobody'' = None"
    by (simp add: twoAgents_def registerAgent_def Let_def initialService_def yieldAgent_def
          swapAgent_def exampleAgent_def)
  from updateReputation_spec [of twoAgents "''swap-1''" a 7 3000 "''nobody''"] a r n
  show ?thesis by simp
qed

subsection \<open>Registration\<close>

lemma fst_registerAgent:
  "fst (registerAgent st a t t') =
     \<lparr> agent_id = agent_id a, agent_name = agent_name a, endpoint = endpoint a,
       capabilities = capabilities a, registeredAt = t, lastSeen = t', reputation = 100 \<rparr>"
  by (simp add: registerAgent_def Let_def)

lemma agents_registerAgent:
  "agents (snd (registerAgent st a t t')) =
     mapSet (agent_id a) (fst (registerAgent st a t t')) (agents st)"
  by (simp add: registerAgent_def Let_def)

text \<open>The keys of the agent store are distinct in the initial service, and the two
  operations that write the store keep them so (the other operations do not touch it).\<close>

lemma initialService_keys_distinct: "distinct (map fst (agents initialService))"
  by (simp add: initialService_def)

lemma registerAgent_keeps_keys_distinct:
  "distinct (map fst (agents st)) \<Longrightarrow>
   distinct (map fst (agents (snd (registerAgent st a t t'))))"
  by (simp add: agents_registerAgent distinct_mapSet)

lemma updateReputation_keeps_keys_distinct:
  "distinct (map fst (agents st)) \<Longrightarrow> updateReputation st aid delta now = Inr st' \<Longrightarrow>
   distinct (map fst (agents st'))"
  by (auto simp: updateReputation_def distinct_mapSet split: option.splits)

text \<open>
  Claim C7. In a registry whose keys are distinct (as the keys of a \<open>Map\<close> are), after two
  \<open>registerAgent\<close> calls with the same id the store holds exactly one entry under that id;
  its fields are those of the second call's input, \<open>registeredAt\<close> and \<open>lastSeen\<close> are the
  clock readings of the second call and the reputation is 100. The second call adds no
  key, and \<open>registerAgent\<close> has no error outcome.
\<close>

theorem registerAgent_twice:
  assumes wf: "distinct (map fst (agents st))"
      and same: "agent_id a2 = agent_id a1"
  shows "let st1 = snd (registerAgent st a1 t1 t1');
             st2 = snd (registerAgent st1 a2 t2 t2');
             stored = \<lparr> agent_id = agent_id a2, agent_name = agent_name a2,
                        endpoint = endpoint a2, capabilities = capabilities a2,
                        registeredAt = t2, lastSeen = t2', reputation = 100 \<rparr>
         in fst (registerAgent st1 a2 t2 t2') = stored
          \<and> filter (\<lambda>e. fst e = agent_id a2) (agents st2) = [(agent_id a2, stored)]
          \<and> mapGet (agents st2) (agent_id a2) = Some stored
          \<and> map fst (agents st2) = map fst (agents st1)
          \<and> distinct (map fst (agents st2))"
proof -
  let ?st1 = "snd (registerAgent st a1 t1 t1')"
  let ?st2 = "snd (registerAgent ?st1 a2 t2 t2')"
  let ?stored = "\<lparr> agent_id = agent_id a2, agent_name = agent_name a2,
                        endpoint = endpoint a2, capabilities = capabilities a2,
                        registeredAt = t2, lastSeen = t2', reputation = 100 \<rparr>"
  have d1: "distinct (map fst (agents ?st1))"
    using wf by (simp add: agents_registerAgent distinct_mapSet)
  have d2: "distinct (map fst (agents ?st2))"
    using d1 by (simp only: agents_registerAgent distinct_mapSet)
  have g2: "mapGet (agents ?st2) (agent_id a2) = Some ?stored"
    by (simp only: agents_registerAgent mapGet_mapSet_same fst_registerAgent)
  have present: "mapGet (agents ?st1) (agent_id a2) \<noteq> None"
    using same by (simp add: agents_registerAgent mapGet_mapSet_same)
  have keys: "map fst (agents ?st2) = map fst (agents ?st1)"
    using map_fst_mapSet_present[OF present] by (simp only: agents_registerAgent)
  have f2: "filter (\<lambda>e. fst e = agent_id a2) (agents ?st2) = [(agent_id a2, ?stored)]"
    by (rule filter_key_distinct[OF d2 g2])
  have r: "fst (registerAgent ?st1 a2 t2 t2') = ?stored"
    by (rule fst_registerAgent)
  show ?thesis
    unfolding Let_def using r f2 g2 keys d2 by blast
qed

theorem registerAgent_twice_witness:
  "distinct (map fst (agents twoAgents))
   \<and> agent_id (exampleAgent ''swap-1'' ''Swap Agent v2'' []) = agent_id swapAgent
   \<and> listAgents
       (snd (registerAgent (snd (registerAgent twoAgents swapAgent 5000 5001))
          (exampleAgent ''swap-1'' ''Swap Agent v2'' []) 6000 6001)) =
     [fst (registerAgent initialService yieldAgent 1000 1001),
      \<lparr> agent_id = ''swap-1'', agent_name = ''Swap Agent v2'',
        endpoint = ''https://agent.example'', capabilities = [],
        registeredAt = 6000, lastSeen = 6001, reputation = 100 \<rparr>]
   \<and> filter (\<lambda>e. fst e = ''swap-1'')
       (agents (snd (registerAgent (snd (registerAgent twoAgents swapAgent 5000 5001))
          (exampleAgent ''swap-1'' ''Swap Agent v2'' []) 6000 6001))) =
     [(''swap-1'',
       \<lparr> agent_id = ''swap-1'', agent_name = ''Swap Agent v2'',
         endpoint = ''https://agent.example'', capabilities = [],
         registeredAt = 6000, lastSeen = 6001, reputation = 100 \<rparr>)]"
proof -
  have wf: "distinct (map fst (agents twoAgents))"
    by (simp add: twoAgents_def registerAgent_def Let_def initialService_def yieldAgent_def
          swapAgent_def exampleAgent_def)
  have same: "agent_id (exampleAgent ''swap-1'' ''Swap Agent v2'' []) = agent_id swapAgent"
    by (simp add: swapAgent_def exampleAgent_def)
  have l: "listAgents
       (snd (registerAgent (snd (registerAgent twoAgents swapAgent 5000 5001))
          (exampleAgent ''swap-1'' ''Swap Agent v2'' []) 6000 6001)) =
     [fst (registerAgent initialService yieldAgent 1000 1001),
      \<lparr> agent_id = ''swap-1'', agent_name = ''Swap Agent v2'',
        endpoint = ''https://agent.example'', capabilities = [],
        registeredAt = 6000, lastSeen = 6001, reputation = 100 \<rparr>]"
    by (simp add: twoAgents_def registerAgent_def Let_def initialService_def yieldAgent_def
          swapAgent_def exampleAgent_def listAgents_def mapValues_def)
  from registerAgent_twice [OF wf same, of 5000 5001 6000 6001] wf same l
  show ?thesis by (simp add: Let_def exampleAgent_def)
qed

subsection \<open>Messages\<close>

lemma mailbox_sendMessage:
  "mailbox (sendMessage st m t) r =
     (if msg_to m = r then mailbox st r @ [stamp m t] else mailbox st r)"
  by (simp add: mailbox_def sendMessage_def stamp_def Let_def)

lemma agents_sendMessage: "agents (sendMessage st m t) = agents st"
  by (simp add: sendMessage_def Let_def)

lemma delegations_sendMessage: "delegations (sendMessage st m t) = delegations st"
  by (simp add: sendMessage_def Let_def)

lemma mailbox_sendAll:
  "mailbox (sendAll st ms) r =
     mailbox st r @ map (\<lambda>(m, t). stamp m t) (filter (\<lambda>(m, t). msg_to m = r) ms)"
  by (induction st ms rule: sendAll.induct) (auto simp: mailbox_sendMessage)

lemma fst_receiveMessages: "fst (receiveMessages st r) = mailbox st r"
  by (simp add: receiveMessages_def mailbox_def Let_def)

lemma mailbox_receiveMessages:
  "mailbox (snd (receiveMessages st r)) r' = (if r' = r then [] else mailbox st r')"
  by (simp add: receiveMessages_def mailbox_def Let_def)

text \<open>
  Claim C5. After any sequence of \<open>sendMessage\<close> calls, \<open>receiveMessages\<close> for a recipient
  returns what was pending for it before, followed by the messages of the sequence
  addressed to it, in send order, each with the clock reading of its send as timestamp;
  when nothing was pending (no mailbox), that is exactly the messages sent. A second
  \<open>receiveMessages\<close> right after returns the empty list, and so does \<open>receiveMessages\<close>
  for an agent without a mailbox.
\<close>

theorem send_receive_roundtrip:
  "fst (receiveMessages (sendAll st ms) r) =
     fst (receiveMessages st r) @
       map (\<lambda>(m, t). stamp m t) (filter (\<lambda>(m, t). msg_to m = r) ms)
   \<and> (messages st r = None \<longrightarrow>
        fst (receiveMessages (sendAll st ms) r) =
          map (\<lambda>(m, t). stamp m t) (filter (\<lambda>(m, t). msg_to m = r) ms))
   \<and> fst (receiveMessages (snd (receiveMessages (sendAll st ms) r)) r) = []
   \<and> (messages st r = None \<longrightarrow> fst (receiveMessages st r) = [])"
  by (simp add: fst_receiveMessages mailbox_receiveMessages mailbox_sendAll)
     (simp add: mailbox_def)

theorem send_receive_roundtrip_witness:
  "messages twoAgents ''yield-1'' = None
   \<and> fst (receiveMessages
        (sendAll twoAgents
           [(helloMessage ''swap-1'' ''yield-1'', 10),
            (helloMessage ''yield-1'' ''swap-1'', 11),
            (helloMessage ''coordinator'' ''yield-1'', 12)]) ''yield-1'') =
       [stamp (helloMessage ''swap-1'' ''yield-1'') 10,
        stamp (helloMessage ''coordinator'' ''yield-1'') 12]
   \<and> fst (receiveMessages twoAgents ''yield-1'') = []"
proof -
  have h: "messages twoAgents ''yield-1'' = None"
    by (simp add: twoAgents_def registerAgent_def Let_def initialService_def)
  from send_receive_roundtrip [of twoAgents
         "[(helloMessage ''swap-1'' ''yield-1'', 10),
           (helloMessage ''yield-1'' ''swap-1'', 11),
           (helloMessage ''coordinator'' ''yield-1'', 12)]" "''yield-1''"] h
  show ?thesis by (simp add: helloMessage_def)
qed

subsection \<open>Delegations\<close>

lemma fst_delegateTask:
  "fst (delegateTask st d u t) =
     \<lparr> fromAgent = fromAgent d, toAgent = toAgent d, task = task d, result = result d,
       error = error d, taskId = u, status = Pending \<rparr>"
  by (simp add: delegateTask_def Let_def)

lemma agents_delegateTask: "agents (snd (delegateTask st d u t)) = agents st"
  by (simp add: delegateTask_def Let_def agents_sendMessage)

lemma delegations_delegateTask:
  "delegations (snd (delegateTask st d u t)) =
     (delegations st)(u \<mapsto> fst (delegateTask st d u t))"
  by (simp add: delegateTask_def Let_def delegations_sendMessage)

lemma mailbox_delegateTask:
  "mailbox (snd (delegateTask st d u t)) r =
     (if toAgent d = r
      then mailbox st r @
             [\<lparr> msg_from = fromAgent d, msg_to = toAgent d, msg_type = Delegation,
                payload = DelegationPayload u (task d), signature = None, timestamp = t \<rparr>]
      else mailbox st r)"
  by (simp add: delegateTask_def Let_def mailbox_sendMessage stamp_def)
     (simp add: mailbox_def)

text \<open>
  Claim C2, as the code has it. \<open>updateDelegation\<close> fails with the not-found error for an
  unknown task id. For a stored delegation it succeeds, sets the status, overwrites
  \<open>result\<close> exactly when the \<open>result\<close> argument is truthy and \<open>error\<close> exactly when the
  \<open>error\<close> argument is a non-empty string (an argument that is left out, or is
  \<open>0\<close>, \<open>false\<close>, \<open>null\<close> or the empty string, leaves the field as it was), changes no
  other delegation, and appends one \<open>response\<close> message from the delegate to the
  originator's mailbox, whose payload is the task id, the status and the \<open>result\<close> and
  \<open>error\<close> arguments as passed. After \<open>delegateTask\<close>, \<open>getDelegation\<close> of the new task id
  returns the delegation with status \<open>pending\<close>; after \<open>updateDelegation\<close> of it with
  \<open>completed\<close> and a truthy result, \<open>getDelegation\<close> shows \<open>completed\<close> and that result.
\<close>

theorem updateDelegation_spec:
  "(delegations st unknown = None \<longrightarrow>
      updateDelegation st unknown s res err now = Inl (DelegationNotFound unknown))
   \<and> (delegations st tid = Some d \<longrightarrow>
        (\<exists>st'. updateDelegation st tid s res err now = Inr st' \<and>
           getDelegation st' tid =
             Some (d\<lparr> status := s,
                      result := (if truthy res then res else result d),
                      error := (if truthyStr err then err else error d) \<rparr>) \<and>
           (\<forall>k. k \<noteq> tid \<longrightarrow> getDelegation st' k = getDelegation st k) \<and>
           mailbox st' (fromAgent d) =
             mailbox st (fromAgent d) @
               [\<lparr> msg_from = toAgent d, msg_to = fromAgent d, msg_type = Response,
                  payload = ResponsePayload tid s res err, signature = None,
                  timestamp = now \<rparr>] \<and>
           (\<forall>r. r \<noteq> fromAgent d \<longrightarrow> mailbox st' r = mailbox st r) \<and>
           agents st' = agents st))
   \<and> getDelegation (snd (delegateTask st req uuid t0)) uuid =
        Some (fst (delegateTask st req uuid t0))
   \<and> status (fst (delegateTask st req uuid t0)) = Pending
   \<and> taskId (fst (delegateTask st req uuid t0)) = uuid
   \<and> (truthy res \<longrightarrow>
        (\<exists>st' d'. updateDelegation (snd (delegateTask st req uuid t0)) uuid Completed res None now
                    = Inr st' \<and>
           getDelegation st' uuid = Some d' \<and> status d' = Completed \<and> result d' = res))"
proof (intro conjI impI)
  show "updateDelegation st unknown s res err now = Inl (DelegationNotFound unknown)"
    if "delegations st unknown = None"
    using that by (simp add: updateDelegation_def)
next
  assume d: "delegations st tid = Some d"
  let ?d' = "d\<lparr> status := s, result := (if truthy res then res else result d),
                 error := (if truthyStr err then err else error d) \<rparr>"
  let ?st1 = "st\<lparr> delegations := (delegations st)(tid \<mapsto> ?d') \<rparr>"
  let ?m = "\<lparr> msg_from = toAgent d, msg_to = fromAgent d, msg_type = Response,
              payload = ResponsePayload tid s res err, signature = None \<rparr>"
  have eq: "updateDelegation st tid s res err now = Inr (sendMessage ?st1 ?m now)"
    using d by (simp add: updateDelegation_def Let_def)
  show "\<exists>st'. updateDelegation st tid s res err now = Inr st' \<and>
           getDelegation st' tid = Some ?d' \<and>
           (\<forall>k. k \<noteq> tid \<longrightarrow> getDelegation st' k = getDelegation st k) \<and>
           mailbox st' (fromAgent d) =
             mailbox st (fromAgent d) @
               [\<lparr> msg_from = toAgent d, msg_to = fromAgent d, msg_type = Response,
                  payload = ResponsePayload tid s res err, signature = None,
                  timestamp = now \<rparr>] \<and>
           (\<forall>r. r \<noteq> fromAgent d \<longrightarrow> mailbox st' r = mailbox st r) \<and>
           agents st' = agents st"
    unfolding eq
    by (simp add: getDelegation_def delegations_sendMessage agents_sendMessage
          mailbox_sendMessage stamp_def)
       (simp add: mailbox_def)
next
  show "getDelegation (snd (delegateTask st req uuid t0)) uuid =
          Some (fst (delegateTask st req uuid t0))"
    by (simp add: getDelegation_def delegations_delegateTask)
next
  show "status (fst (delegateTask st req uuid t0)) = Pending"
    by (simp add: fst_delegateTask)
next
  show "taskId (fst (delegateTask st req uuid t0)) = uuid"
    by (simp add: fst_delegateTask)
next
  assume "truthy res"
  then show "\<exists>st' d'. updateDelegation (snd (delegateTask st req uuid t0)) uuid Completed res None now
                        = Inr st' \<and>
           getDelegation st' uuid = Some d' \<and> status d' = Completed \<and> result d' = res"
    by (simp add: updateDelegation_def Let_def delegations_delegateTask getDelegation_def
          delegations_sendMessage)
qed

theorem updateDelegation_spec_witness:
  "delegations delegatedOnce ''task-9'' = None
   \<and> delegations delegatedOnce ''task-1'' =
        Some (fst (delegateTask twoAgents yieldRequest ''task-1'' 4000))
   \<and> truthy (JNum 42)
   \<and> updateDelegation delegatedOnce ''task-9'' Completed (JNum 42) None 5000 =
        Inl (DelegationNotFound ''task-9'')
   \<and> (\<exists>st'. updateDelegation delegatedOnce ''task-1'' Completed (JNum 42) None 5000 = Inr st' \<and>
         map_option status (getDelegation st' ''task-1'') = Some Completed \<and>
         map_option result (getDelegation st' ''task-1'') = Some (JNum 42) \<and>
         mailbox st' ''swap-1'' =
           [\<lparr> msg_from = ''yield-1'', msg_to = ''swap-1'', msg_type = Response,
              payload = ResponsePayload ''task-1'' Completed (JNum 42) None, signature = None,
              timestamp = 5000 \<rparr>])"
proof -
  let ?d = "fst (delegateTask twoAgents yieldRequest ''task-1'' 4000)"
  have h1: "delegations delegatedOnce ''task-9'' = None"
    by (simp add: delegatedOnce_def delegations_delegateTask twoAgents_def registerAgent_def
          Let_def initialService_def)
  have h2: "delegations delegatedOnce ''task-1'' = Some ?d"
    by (simp add: delegatedOnce_def delegations_delegateTask)
  have h3: "truthy (JNum 42)" by simp
  have m: "mailbox delegatedOnce ''swap-1'' = []"
    by (simp add: delegatedOnce_def mailbox_delegateTask yieldRequest_def)
       (simp add: mailbox_def twoAgents_def registerAgent_def Let_def initialService_def)
  have ends: "fromAgent ?d = ''swap-1''" "toAgent ?d = ''yield-1''"
    by (simp_all add: fst_delegateTask yieldRequest_def)
  note spec = updateDelegation_spec [of delegatedOnce "''task-9''" Completed "JNum 42" None 5000
                 "''task-1''" ?d]
  from spec h1
  have nf: "updateDelegation delegatedOnce ''task-9'' Completed (JNum 42) None 5000 =
              Inl (DelegationNotFound ''task-9'')"
    by blast
  from spec h2 obtain st' where
    u: "updateDelegation delegatedOnce ''task-1'' Completed (JNum 42) None 5000 = Inr st'" and
    g: "getDelegation st' ''task-1'' =
          Some (?d\<lparr> status := Completed,
                    result := (if truthy (JNum 42) then JNum 42 else result ?d),
                    error := (if truthyStr None then None else error ?d) \<rparr>)" and
    mb: "mailbox st' (fromAgent ?d) =
           mailbox delegatedOnce (fromAgent ?d) @
             [\<lparr> msg_from = toAgent ?d, msg_to = fromAgent ?d, msg_type = Response,
                payload = ResponsePayload ''task-1'' Completed (JNum 42) None, signature = None,
                timestamp = 5000 \<rparr>]"
    by blast
  from g have gs: "map_option status (getDelegation st' ''task-1'') = Some Completed"
    and gr: "map_option result (getDelegation st' ''task-1'') = Some (JNum 42)"
    by simp_all
  from mb have mb': "mailbox st' ''swap-1'' =
           [\<lparr> msg_from = ''yield-1'', msg_to = ''swap-1'', msg_type = Response,
              payload = ResponsePayload ''task-1'' Completed (JNum 42) None, signature = None,
              timestamp = 5000 \<rparr>]"
    by (simp only: ends m append_Nil)
  from h1 h2 h3 nf u gs gr mb' show ?thesis by blast
qed

text \<open>The claim as the specification words it fails for a result that is supplied but
  falsy: completing the task with the result \<open>0\<close> leaves the stored result undefined.\<close>

theorem updateDelegation_falsy_result_not_stored:
  "updateDelegation delegatedOnce ''task-1'' Completed (JNum 0) None 5000 = Inr completedWithZero
   \<and> map_option status (getDelegation completedWithZero ''task-1'') = Some Completed
   \<and> map_option result (getDelegation completedWithZero ''task-1'') = Some JUndefined
   \<and> map_option result (getDelegation completedWithZero ''task-1'') \<noteq> Some (JNum 0)"
  by (simp add: completedWithZero_def delegatedOnce_def updateDelegation_def Let_def
        delegations_delegateTask fst_delegateTask getDelegation_def delegations_sendMessage
        yieldRequest_def)

subsection \<open>Workflows\<close>

lemma discoverAgents_cong:
  "agents st' = agents st \<Longrightarrow> discoverAgents st' c = discoverAgents st c"
  by (simp add: discoverAgents_def)

lemma bestAgent_cong: "agents st' = agents st \<Longrightarrow> bestAgent st' c = bestAgent st c"
  by (simp add: bestAgent_def discoverAgents_def)

lemma stepDelegation_cong:
  "agents st' = agents st \<Longrightarrow> stepDelegation u w st' i s = stepDelegation u w st i s"
  by (simp add: stepDelegation_def bestAgent_def discoverAgents_def)

lemma stepMessage_cong:
  "agents st' = agents st \<Longrightarrow> stepMessage u c w st' i s = stepMessage u c w st i s"
  by (simp add: stepMessage_def bestAgent_def discoverAgents_def)

lemma stepOutcome_cong:
  "agents st' = agents st \<Longrightarrow> stepOutcome u w st' i s = stepOutcome u w st i s"
  by (simp add: stepOutcome_def stepDelegation_def bestAgent_def discoverAgents_def)

lemma composeSteps_match:
  assumes "discoverAgents st (agentCapability s) \<noteq> []"
  shows "composeSteps u c w i (s # rest) rs st =
           composeSteps u c w (Suc i) rest (rs @ [stepOutcome u w st i s]) (afterStep u c w i s st)"
proof -
  from assms obtain b others where d: "discoverAgents st (agentCapability s) = b # others"
    by (cases "discoverAgents st (agentCapability s)") auto
  then have b: "bestAgent st (agentCapability s) = b" by (simp add: bestAgent_def)
  show ?thesis
    by (simp add: d b afterStep_def stepRequest_def stepOutcome_def stepDelegation_def
          stepTask_def fst_delegateTask case_prod_beta)
qed

lemma composeSteps_no_match:
  "discoverAgents st (agentCapability s) = [] \<Longrightarrow>
   composeSteps u c w i (s # rest) rs st = (Inl (NoAgentWithCapability (agentCapability s)), st)"
  by simp

lemma agents_afterStep: "agents (afterStep u c w i s st) = agents st"
  by (simp add: afterStep_def agents_delegateTask)

lemma mailbox_afterStep:
  "mailbox (afterStep u c w i s st) r =
     (if agent_id (bestAgent st (agentCapability s)) = r
      then mailbox st r @ [stepMessage u c w st i s] else mailbox st r)"
  by (simp add: afterStep_def mailbox_delegateTask stepRequest_def stepMessage_def)

lemma delegations_afterStep:
  "delegations (afterStep u c w i s st) = (delegations st)(u i \<mapsto> stepDelegation u w st i s)"
  by (simp add: afterStep_def delegations_delegateTask fst_delegateTask stepRequest_def
        stepDelegation_def)

lemma composeSteps_all_match:
  "\<forall>p \<in> set ss. discoverAgents st (agentCapability p) \<noteq> [] \<Longrightarrow>
   fst (composeSteps u c w i ss rs st) =
     Inr (rs @ map (\<lambda>(j, s). stepOutcome u w st j s) (enumerate i ss))"
proof (induction ss arbitrary: i rs st)
  case Nil
  then show ?case by simp
next
  case (Cons s ss)
  let ?st' = "afterStep u c w i s st"
  have ag: "agents ?st' = agents st" by (rule agents_afterStep)
  have m: "discoverAgents st (agentCapability s) \<noteq> []" using Cons.prems by simp
  have rest: "\<forall>p \<in> set ss. discoverAgents ?st' (agentCapability p) \<noteq> []"
    using Cons.prems by (simp add: discoverAgents_cong[OF ag])
  show ?case
    by (simp add: composeSteps_match[OF m] Cons.IH[OF rest] stepOutcome_cong[OF ag]
          del: composeSteps.simps)
qed

lemma composeSteps_agents:
  "agents (snd (composeSteps u c w i ss rs st)) = agents st"
proof (induction ss arbitrary: i rs st)
  case Nil
  then show ?case by simp
next
  case (Cons s ss)
  show ?case
  proof (cases "discoverAgents st (agentCapability s) = []")
    case True
    then show ?thesis by simp
  next
    case False
    show ?thesis
      by (simp only: composeSteps_match[OF False] Cons.IH agents_afterStep)
  qed
qed

lemma composeSteps_mailbox:
  "\<forall>p \<in> set ss. discoverAgents st (agentCapability p) \<noteq> [] \<Longrightarrow>
   mailbox (snd (composeSteps u c w i ss rs st)) r =
     mailbox st r @
       map (\<lambda>(j, s). stepMessage u c w st j s)
         (filter (\<lambda>(j, s). agent_id (bestAgent st (agentCapability s)) = r) (enumerate i ss))"
proof (induction ss arbitrary: i rs st)
  case Nil
  then show ?case by simp
next
  case (Cons s ss)
  let ?st' = "afterStep u c w i s st"
  have ag: "agents ?st' = agents st" by (rule agents_afterStep)
  have m: "discoverAgents st (agentCapability s) \<noteq> []" using Cons.prems by simp
  have rest: "\<forall>p \<in> set ss. discoverAgents ?st' (agentCapability p) \<noteq> []"
    using Cons.prems by (simp add: discoverAgents_cong[OF ag])
  show ?case
    by (simp add: composeSteps_match[OF m] Cons.IH[OF rest] stepMessage_cong[OF ag]
          bestAgent_cong[OF ag] mailbox_afterStep del: composeSteps.simps)
qed

lemma composeSteps_delegations:
  "\<forall>p \<in> set ss. discoverAgents st (agentCapability p) \<noteq> [] \<Longrightarrow>
   delegations (snd (composeSteps u c w i ss rs st)) =
     delegations st ++
       map_of (rev (map (\<lambda>(j, s). (u j, stepDelegation u w st j s)) (enumerate i ss)))"
proof (induction ss arbitrary: i rs st)
  case Nil
  then show ?case by simp
next
  case (Cons s ss)
  let ?st' = "afterStep u c w i s st"
  have ag: "agents ?st' = agents st" by (rule agents_afterStep)
  have m: "discoverAgents st (agentCapability s) \<noteq> []" using Cons.prems by simp
  have rest: "\<forall>p \<in> set ss. discoverAgents ?st' (agentCapability p) \<noteq> []"
    using Cons.prems by (simp add: discoverAgents_cong[OF ag])
  have "delegations (snd (composeSteps u c w i (s # ss) rs st)) =
          delegations (snd (composeSteps u c w (Suc i) ss (rs @ [stepOutcome u w st i s]) ?st'))"
    by (simp only: composeSteps_match[OF m])
  also have "\<dots> = delegations ?st' ++
          map_of (rev (map (\<lambda>(j, s). (u j, stepDelegation u w ?st' j s)) (enumerate (Suc i) ss)))"
    by (rule Cons.IH[OF rest])
  also have "\<dots> = (delegations st)(u i \<mapsto> stepDelegation u w st i s) ++
          map_of (rev (map (\<lambda>(j, s). (u j, stepDelegation u w st j s)) (enumerate (Suc i) ss)))"
    by (simp only: delegations_afterStep stepDelegation_cong[OF ag])
  also have "\<dots> = delegations st ++
          map_of (rev (map (\<lambda>(j, s). (u j, stepDelegation u w st j s)) (enumerate i (s # ss))))"
    by simp
  finally show ?case .
qed

lemma composeSteps_fails_at:
  "\<forall>p \<in> set pre. discoverAgents st (agentCapability p) \<noteq> [] \<Longrightarrow>
   discoverAgents st (agentCapability s) = [] \<Longrightarrow>
   composeSteps u c w i (pre @ s # post) rs st =
     (Inl (NoAgentWithCapability (agentCapability s)), snd (composeSteps u c w i pre rs st))"
proof (induction pre arbitrary: i rs st)
  case Nil
  then show ?case by simp
next
  case (Cons p pre)
  let ?st' = "afterStep u c w i p st"
  have ag: "agents ?st' = agents st" by (rule agents_afterStep)
  have m: "discoverAgents st (agentCapability p) \<noteq> []" using Cons.prems by simp
  have rest: "\<forall>q \<in> set pre. discoverAgents ?st' (agentCapability q) \<noteq> []"
    using Cons.prems by (simp add: discoverAgents_cong[OF ag])
  have none: "discoverAgents ?st' (agentCapability s) = []"
    using Cons.prems by (simp add: discoverAgents_cong[OF ag])
  show ?case
    using Cons.IH[OF rest none] by (simp add: composeSteps_match[OF m] del: composeSteps.simps)
qed

lemma map_of_mem_not_None: "(k, v) \<in> set l \<Longrightarrow> map_of l k \<noteq> None"
  by (induction l) auto

lemma map_add_right_not_None: "n k \<noteq> None \<Longrightarrow> (m ++ n) k \<noteq> None"
  by (auto simp: map_add_def split: option.splits)

lemma enumerate_keys:
  "map fst (map (\<lambda>(j, s). (f j, g j s)) (enumerate i ss)) = map f [i..<i + length ss]"
proof -
  have "map fst (map (\<lambda>(j, s). (f j, g j s)) (enumerate i ss)) =
          map f (map fst (enumerate i ss))"
    by (simp only: map_map comp_def case_prod_beta fst_conv)
  then show ?thesis by (simp only: map_fst_enumerate)
qed

lemma composeSteps_delegation_present:
  assumes "\<forall>p \<in> set ss. discoverAgents st (agentCapability p) \<noteq> []" and "j < length ss"
  shows "delegations (snd (composeSteps u c w i ss rs st)) (u (i + j)) \<noteq> None"
proof -
  let ?l = "map (\<lambda>(j, s). (u j, stepDelegation u w st j s)) (enumerate i ss)"
  have "(i + j, ss ! j) \<in> set (enumerate i ss)"
    using assms(2) by (simp add: in_set_enumerate_eq)
  then have "(u (i + j), stepDelegation u w st (i + j) (ss ! j)) \<in> set (rev ?l)"
    by force
  then have "map_of (rev ?l) (u (i + j)) \<noteq> None"
    by (rule map_of_mem_not_None)
  then show ?thesis
    unfolding composeSteps_delegations[OF assms(1)] by (rule map_add_right_not_None)
qed

lemma composeSteps_delegation_lookup:
  assumes "\<forall>p \<in> set ss. discoverAgents st (agentCapability p) \<noteq> []"
      and "inj_on u {i..<i + length ss}" and "j < length ss"
  shows "delegations (snd (composeSteps u c w i ss rs st)) (u (i + j)) =
           Some (stepDelegation u w st (i + j) (ss ! j))"
proof -
  let ?l = "map (\<lambda>(j, s). (u j, stepDelegation u w st j s)) (enumerate i ss)"
  have keys: "map fst ?l = map u [i..<i + length ss]"
    by (rule enumerate_keys)
  have "distinct (map fst ?l)"
    unfolding keys using assms(2) by (simp add: distinct_map)
  then have d: "distinct (map fst (rev ?l))" by (simp add: rev_map[symmetric])
  have "(i + j, ss ! j) \<in> set (enumerate i ss)"
    using assms(3) by (simp add: in_set_enumerate_eq)
  then have "(u (i + j), stepDelegation u w st (i + j) (ss ! j)) \<in> set (rev ?l)"
    by force
  with d have "map_of (rev ?l) (u (i + j)) = Some (stepDelegation u w st (i + j) (ss ! j))"
    by (rule map_of_is_SomeI)
  then show ?thesis
    by (simp add: composeSteps_delegations[OF assms(1)])
qed

lemma bestAgent_top:
  assumes "discoverAgents st c \<noteq> []"
  shows "hasCapability c (bestAgent st c)"
    and "bestAgent st c \<in> set (listAgents st)"
    and "\<forall>a \<in> set (listAgents st). hasCapability c a \<longrightarrow>
           reputation a \<le> reputation (bestAgent st c)"
proof -
  from assms obtain b others where d: "discoverAgents st c = b # others"
    by (cases "discoverAgents st c") auto
  then have b: "bestAgent st c = b" by (simp add: bestAgent_def)
  have "mset (discoverAgents st c) = mset (filter (hasCapability c) (listAgents st))"
    by (simp add: discoverAgents_def listAgents_def mset_arraySort)
  then have s: "set (discoverAgents st c) = set (filter (hasCapability c) (listAgents st))"
    by (rule mset_eq_setD)
  have srt: "sorted_wrt (\<lambda>a b. reputation b \<le> reputation a) (b # others)"
    using sorted_arraySort[of "filter (hasCapability c) (mapValues (agents st))"] d
    by (simp add: discoverAgents_def)
  from s d have "b \<in> set (filter (hasCapability c) (listAgents st))" by auto
  then show "hasCapability c (bestAgent st c)" and "bestAgent st c \<in> set (listAgents st)"
    by (simp_all add: b)
  show "\<forall>a \<in> set (listAgents st). hasCapability c a \<longrightarrow>
           reputation a \<le> reputation (bestAgent st c)"
  proof (intro ballI impI)
    fix a assume "a \<in> set (listAgents st)" and "hasCapability c a"
    then have "a \<in> set (b # others)" using s d by auto
    with srt show "reputation a \<le> reputation (bestAgent st c)"
      by (auto simp: b)
  qed
qed

text \<open>
  Claim C3. \<open>composeWorkflow\<close> processes the steps in order. If all steps before some step
  have a matching agent and that step has none, the call fails with the error naming that
  step's capability, returns no results, and outcome and state are those of the workflow
  cut after the failing step: no later step is attempted. If every step has a matching
  agent, the call returns one entry per step, in order; the entry of step \<open>j\<close> names the
  agent listed first by \<open>discoverAgents\<close> (a matching registered agent of highest
  reputation) and holds the delegation record created for it, with task id \<open>uuids j\<close> and
  status \<open>pending\<close> (completion is not awaited); the delegation messages are appended to
  the recipients' mailboxes, and when the task ids are distinct each recorded delegation is
  the one stored under its id.
\<close>

theorem composeWorkflow_spec:
  "((\<forall>p \<in> set pre. discoverAgents st (agentCapability p) \<noteq> [])
      \<and> discoverAgents st (agentCapability s) = [] \<longrightarrow>
        fst (composeWorkflow uuids clock st \<lparr> workflow_name = w, steps = pre @ s # post \<rparr>) =
          Inl (NoAgentWithCapability (agentCapability s))
      \<and> composeWorkflow uuids clock st \<lparr> workflow_name = w, steps = pre @ s # post \<rparr> =
          composeWorkflow uuids clock st \<lparr> workflow_name = w, steps = pre @ [s] \<rparr>)
   \<and> ((\<forall>p \<in> set (steps flow). discoverAgents st (agentCapability p) \<noteq> []) \<longrightarrow>
        fst (composeWorkflow uuids clock st flow) =
          Inr (map (\<lambda>(j, s). stepOutcome uuids (workflow_name flow) st j s)
                 (enumerate 0 (steps flow)))
      \<and> (\<forall>j < length (steps flow).
            status (stepDelegation uuids (workflow_name flow) st j (steps flow ! j)) = Pending)
      \<and> (\<forall>r. mailbox (snd (composeWorkflow uuids clock st flow)) r =
            mailbox st r @
              map (\<lambda>(j, s). stepMessage uuids clock (workflow_name flow) st j s)
                (filter (\<lambda>(j, s). agent_id (bestAgent st (agentCapability s)) = r)
                   (enumerate 0 (steps flow))))
      \<and> (inj_on uuids {..<length (steps flow)} \<longrightarrow>
            (\<forall>j < length (steps flow).
               getDelegation (snd (composeWorkflow uuids clock st flow)) (uuids j) =
                 Some (stepDelegation uuids (workflow_name flow) st j (steps flow ! j))))
      \<and> (\<forall>p \<in> set (steps flow).
            hasCapability (agentCapability p) (bestAgent st (agentCapability p))
          \<and> bestAgent st (agentCapability p) \<in> set (listAgents st)
          \<and> (\<forall>a \<in> set (listAgents st). hasCapability (agentCapability p) a \<longrightarrow>
                reputation a \<le> reputation (bestAgent st (agentCapability p)))))"
proof (intro conjI impI)
  assume h: "(\<forall>p \<in> set pre. discoverAgents st (agentCapability p) \<noteq> [])
      \<and> discoverAgents st (agentCapability s) = []"
  then have a: "\<forall>p \<in> set pre. discoverAgents st (agentCapability p) \<noteq> []"
    and b: "discoverAgents st (agentCapability s) = []"
    by simp_all
  show "fst (composeWorkflow uuids clock st \<lparr> workflow_name = w, steps = pre @ s # post \<rparr>) =
          Inl (NoAgentWithCapability (agentCapability s))"
    by (simp add: composeWorkflow_def composeSteps_fails_at[OF a b])
  show "composeWorkflow uuids clock st \<lparr> workflow_name = w, steps = pre @ s # post \<rparr> =
          composeWorkflow uuids clock st \<lparr> workflow_name = w, steps = pre @ [s] \<rparr>"
    by (simp add: composeWorkflow_def composeSteps_fails_at[OF a b])
next
  assume a: "\<forall>p \<in> set (steps flow). discoverAgents st (agentCapability p) \<noteq> []"
  show "fst (composeWorkflow uuids clock st flow) =
          Inr (map (\<lambda>(j, s). stepOutcome uuids (workflow_name flow) st j s)
                 (enumerate 0 (steps flow)))"
    by (simp add: composeWorkflow_def composeSteps_all_match[OF a])
  show "\<forall>j < length (steps flow).
            status (stepDelegation uuids (workflow_name flow) st j (steps flow ! j)) = Pending"
    by (simp add: stepDelegation_def)
  show "\<forall>r. mailbox (snd (composeWorkflow uuids clock st flow)) r =
            mailbox st r @
              map (\<lambda>(j, s). stepMessage uuids clock (workflow_name flow) st j s)
                (filter (\<lambda>(j, s). agent_id (bestAgent st (agentCapability s)) = r)
                   (enumerate 0 (steps flow)))"
    by (simp add: composeWorkflow_def composeSteps_mailbox[OF a])
  show "\<forall>j < length (steps flow).
               getDelegation (snd (composeWorkflow uuids clock st flow)) (uuids j) =
                 Some (stepDelegation uuids (workflow_name flow) st j (steps flow ! j))"
    if inj: "inj_on uuids {..<length (steps flow)}"
  proof (intro allI impI)
    fix j assume j: "j < length (steps flow)"
    have inj': "inj_on uuids {0..<0 + length (steps flow)}"
      using inj by (simp add: lessThan_atLeast0)
    show "getDelegation (snd (composeWorkflow uuids clock st flow)) (uuids j) =
            Some (stepDelegation uuids (workflow_name flow) st j (steps flow ! j))"
      using composeSteps_delegation_lookup[OF a inj' j, of clock "workflow_name flow" "[]"]
      by (simp add: composeWorkflow_def getDelegation_def)
  qed
  show "\<forall>p \<in> set (steps flow).
            hasCapability (agentCapability p) (bestAgent st (agentCapability p))
          \<and> bestAgent st (agentCapability p) \<in> set (listAgents st)
          \<and> (\<forall>a \<in> set (listAgents st). hasCapability (agentCapability p) a \<longrightarrow>
                reputation a \<le> reputation (bestAgent st (agentCapability p)))"
  proof (intro ballI)
    fix p assume "p \<in> set (steps flow)"
    with a have ne: "discoverAgents st (agentCapability p) \<noteq> []" by simp
    from bestAgent_top[OF ne]
    show "hasCapability (agentCapability p) (bestAgent st (agentCapability p))
          \<and> bestAgent st (agentCapability p) \<in> set (listAgents st)
          \<and> (\<forall>a \<in> set (listAgents st). hasCapability (agentCapability p) a \<longrightarrow>
                reputation a \<le> reputation (bestAgent st (agentCapability p)))"
      by (intro conjI)
  qed
qed

theorem composeWorkflow_spec_witness:
  "discoverAgents promoted (agentCapability baseStep) \<noteq> []
   \<and> discoverAgents promoted (agentCapability swapStep) \<noteq> []
   \<and> discoverAgents promoted (agentCapability bridgeStep) = []
   \<and> discoverAgents promoted (agentCapability yieldStep) \<noteq> []
   \<and> steps goodWorkflow = [baseStep, yieldStep]
   \<and> inj_on exampleUuids {..<length (steps goodWorkflow)}
   \<and> fst (composeWorkflow exampleUuids exampleClock promoted
             \<lparr> workflow_name = ''rebalance'',
               steps = [baseStep, swapStep] @ bridgeStep # [yieldStep] \<rparr>) =
        Inl (NoAgentWithCapability ''bridge'')
   \<and> fst (composeWorkflow exampleUuids exampleClock promoted goodWorkflow) =
        Inr [\<lparr> step = ''base'', agent = ''Swap Agent'',
               step_result =
                 \<lparr> fromAgent = ''coordinator'', toAgent = ''swap-1'',
                   task = \<lparr> task_type = ''base'',
                            task_description = ''Workflow step: rebalance'',
                            task_parameters = JStr ''scan'' \<rparr>,
                   result = JUndefined, error = None,
                   taskId = ''uuid-i'', status = Pending \<rparr> \<rparr>,
             \<lparr> step = ''yield-analysis'', agent = ''Yield Agent'',
               step_result =
                 \<lparr> fromAgent = ''coordinator'', toAgent = ''yield-1'',
                   task = \<lparr> task_type = ''yield-analysis'',
                            task_description = ''Workflow step: rebalance'',
                            task_parameters = JNull \<rparr>,
                   result = JUndefined, error = None,
                   taskId = ''uuid-ii'', status = Pending \<rparr> \<rparr>]
   \<and> map_option toAgent
        (getDelegation (snd (composeWorkflow exampleUuids exampleClock promoted goodWorkflow))
           ''uuid-ii'') = Some ''yield-1''"
proof -
  have h1: "\<forall>p \<in> set [baseStep, swapStep]. discoverAgents promoted (agentCapability p) \<noteq> []"
    by code_simp
  have h2: "discoverAgents promoted (agentCapability bridgeStep) = []"
    by code_simp
  have h3: "\<forall>p \<in> set (steps goodWorkflow). discoverAgents promoted (agentCapability p) \<noteq> []"
    by code_simp
  have h4: "inj_on exampleUuids {..<length (steps goodWorkflow)}"
    by (auto simp: inj_on_def exampleUuids_def goodWorkflow_def)
  have b: "agent_id (bestAgent promoted ''base'') = ''swap-1''"
    "agent_name (bestAgent promoted ''base'') = ''Swap Agent''"
    "agent_id (bestAgent promoted ''yield-analysis'') = ''yield-1''"
    "agent_name (bestAgent promoted ''yield-analysis'') = ''Yield Agent''"
    by code_simp+
  note spec = composeWorkflow_spec [of "[baseStep, swapStep]" promoted bridgeStep exampleUuids
                exampleClock "''rebalance''" "[yieldStep]" goodWorkflow]
  from spec h1 h2
  have failing: "fst (composeWorkflow exampleUuids exampleClock promoted
             \<lparr> workflow_name = ''rebalance'',
               steps = [baseStep, swapStep] @ bridgeStep # [yieldStep] \<rparr>) =
        Inl (NoAgentWithCapability (agentCapability bridgeStep))"
    by blast
  from spec h3
  have "fst (composeWorkflow exampleUuids exampleClock promoted goodWorkflow) =
          Inr (map (\<lambda>(j, s). stepOutcome exampleUuids (workflow_name goodWorkflow) promoted j s)
                 (enumerate 0 (steps goodWorkflow)))"
    by blast
  then have good: "fst (composeWorkflow exampleUuids exampleClock promoted goodWorkflow) =
        Inr [\<lparr> step = ''base'', agent = ''Swap Agent'',
               step_result =
                 \<lparr> fromAgent = ''coordinator'', toAgent = ''swap-1'',
                   task = \<lparr> task_type = ''base'',
                            task_description = ''Workflow step: rebalance'',
                            task_parameters = JStr ''scan'' \<rparr>,
                   result = JUndefined, error = None,
                   taskId = ''uuid-i'', status = Pending \<rparr> \<rparr>,
             \<lparr> step = ''yield-analysis'', agent = ''Yield Agent'',
               step_result =
                 \<lparr> fromAgent = ''coordinator'', toAgent = ''yield-1'',
                   task = \<lparr> task_type = ''yield-analysis'',
                            task_description = ''Workflow step: rebalance'',
                            task_parameters = JNull \<rparr>,
                   result = JUndefined, error = None,
                   taskId = ''uuid-ii'', status = Pending \<rparr> \<rparr>]"
    by (simp add: goodWorkflow_def baseStep_def yieldStep_def stepOutcome_def
          stepDelegation_def stepTask_def exampleUuids_def b)
  from spec h3 h4
  have "\<forall>j < length (steps goodWorkflow).
          getDelegation (snd (composeWorkflow exampleUuids exampleClock promoted goodWorkflow))
            (exampleUuids j) =
          Some (stepDelegation exampleUuids (workflow_name goodWorkflow) promoted j
                  (steps goodWorkflow ! j))"
    by blast
  then have "getDelegation (snd (composeWorkflow exampleUuids exampleClock promoted goodWorkflow))
            (exampleUuids 1) =
          Some (stepDelegation exampleUuids (workflow_name goodWorkflow) promoted 1
                  (steps goodWorkflow ! 1))"
    by (simp add: goodWorkflow_def)
  then have stored: "map_option toAgent
        (getDelegation (snd (composeWorkflow exampleUuids exampleClock promoted goodWorkflow))
           ''uuid-ii'') = Some ''yield-1''"
    by (simp add: exampleUuids_def goodWorkflow_def yieldStep_def stepDelegation_def b)
  have e: "discoverAgents promoted (agentCapability baseStep) \<noteq> []"
    "discoverAgents promoted (agentCapability swapStep) \<noteq> []"
    "discoverAgents promoted (agentCapability yieldStep) \<noteq> []"
    using h1 h3 by (simp_all add: goodWorkflow_def)
  have g: "steps goodWorkflow = [baseStep, yieldStep]" by (simp add: goodWorkflow_def)
  from e g h2 h4 failing good stored show ?thesis
    by (simp add: bridgeStep_def)
qed

text \<open>
  Claim C10. When \<open>composeWorkflow\<close> fails at a step because no agent matches, after every
  earlier step has found one, the failed call has changed the state: a delegation is
  stored under the task id of each earlier step (the step's own delegation record when
  the ids are distinct), each recipient's mailbox holds the \<open>delegation\<close> messages of the
  earlier steps after what it held before, and if there was an earlier step the state
  differs from the initial one. Nothing is rolled back.
\<close>

theorem composeWorkflow_no_rollback:
  assumes "steps flow = pre @ s # post"
      and "\<forall>p \<in> set pre. discoverAgents st (agentCapability p) \<noteq> []"
      and "discoverAgents st (agentCapability s) = []"
  shows "fst (composeWorkflow uuids clock st flow) =
           Inl (NoAgentWithCapability (agentCapability s))
       \<and> (\<forall>j < length pre.
             getDelegation (snd (composeWorkflow uuids clock st flow)) (uuids j) \<noteq> None)
       \<and> (inj_on uuids {..<length pre} \<longrightarrow>
            (\<forall>j < length pre.
               getDelegation (snd (composeWorkflow uuids clock st flow)) (uuids j) =
                 Some (stepDelegation uuids (workflow_name flow) st j (pre ! j))))
       \<and> (\<forall>r. mailbox (snd (composeWorkflow uuids clock st flow)) r =
            mailbox st r @
              map (\<lambda>(j, s). stepMessage uuids clock (workflow_name flow) st j s)
                (filter (\<lambda>(j, s). agent_id (bestAgent st (agentCapability s)) = r)
                   (enumerate 0 pre)))
       \<and> (\<forall>j < length pre.
             stepMessage uuids clock (workflow_name flow) st j (pre ! j)
               \<in> set (mailbox (snd (composeWorkflow uuids clock st flow))
                        (agent_id (bestAgent st (agentCapability (pre ! j))))))
       \<and> (pre \<noteq> [] \<longrightarrow> snd (composeWorkflow uuids clock st flow) \<noteq> st)"
proof -
  let ?w = "workflow_name flow"
  let ?final = "snd (composeWorkflow uuids clock st flow)"
  have run: "composeWorkflow uuids clock st flow =
               (Inl (NoAgentWithCapability (agentCapability s)),
                snd (composeSteps uuids clock ?w 0 pre [] st))"
    by (simp add: composeWorkflow_def assms(1) composeSteps_fails_at[OF assms(2,3)])
  have final: "?final = snd (composeSteps uuids clock ?w 0 pre [] st)"
    by (simp add: run)
  have out: "fst (composeWorkflow uuids clock st flow) =
               Inl (NoAgentWithCapability (agentCapability s))"
    by (simp add: run)
  have present: "\<forall>j < length pre. getDelegation ?final (uuids j) \<noteq> None"
    using composeSteps_delegation_present[OF assms(2), of _ uuids clock ?w 0 "[]"]
    by (simp add: final getDelegation_def)
  have exact: "\<forall>j < length pre. getDelegation ?final (uuids j) =
                  Some (stepDelegation uuids ?w st j (pre ! j))"
    if inj: "inj_on uuids {..<length pre}"
  proof (intro allI impI)
    fix j assume j: "j < length pre"
    have inj': "inj_on uuids {0..<0 + length pre}"
      using inj by (simp add: lessThan_atLeast0)
    show "getDelegation ?final (uuids j) = Some (stepDelegation uuids ?w st j (pre ! j))"
      using composeSteps_delegation_lookup[OF assms(2) inj' j, of clock ?w "[]"]
      by (simp add: final getDelegation_def)
  qed
  have mb: "\<forall>r. mailbox ?final r =
            mailbox st r @
              map (\<lambda>(j, s). stepMessage uuids clock ?w st j s)
                (filter (\<lambda>(j, s). agent_id (bestAgent st (agentCapability s)) = r)
                   (enumerate 0 pre))"
    by (simp add: final composeSteps_mailbox[OF assms(2)])
  have mem: "\<forall>j < length pre.
             stepMessage uuids clock ?w st j (pre ! j)
               \<in> set (mailbox ?final (agent_id (bestAgent st (agentCapability (pre ! j)))))"
  proof (intro allI impI)
    fix j assume j: "j < length pre"
    let ?r = "agent_id (bestAgent st (agentCapability (pre ! j)))"
    have "(j, pre ! j) \<in> set (enumerate 0 pre)"
      using j by (simp add: in_set_enumerate_eq)
    then have "(j, pre ! j) \<in> set (filter (\<lambda>(j, s). agent_id (bestAgent st (agentCapability s)) = ?r)
                   (enumerate 0 pre))"
      by simp
    then have "stepMessage uuids clock ?w st j (pre ! j) \<in>
                 set (map (\<lambda>(j, s). stepMessage uuids clock ?w st j s)
                   (filter (\<lambda>(j, s). agent_id (bestAgent st (agentCapability s)) = ?r)
                      (enumerate 0 pre)))"
      by force
    then show "stepMessage uuids clock ?w st j (pre ! j) \<in> set (mailbox ?final ?r)"
      using mb by simp
  qed
  have changed: "?final \<noteq> st" if ne: "pre \<noteq> []"
  proof
    assume same: "?final = st"
    from ne have j: "0 < length pre" by simp
    let ?r = "agent_id (bestAgent st (agentCapability (pre ! 0)))"
    let ?sent = "map (\<lambda>(j, s). stepMessage uuids clock ?w st j s)
                (filter (\<lambda>(j, s). agent_id (bestAgent st (agentCapability s)) = ?r)
                   (enumerate 0 pre))"
    have "(0, pre ! 0) \<in> set (enumerate 0 pre)"
      using j by (simp add: in_set_enumerate_eq)
    then have "(0, pre ! 0) \<in> set (filter (\<lambda>(j, s). agent_id (bestAgent st (agentCapability s)) = ?r)
                   (enumerate 0 pre))"
      by simp
    then have "?sent \<noteq> []" by force
    moreover have "mailbox st ?r = mailbox st ?r @ ?sent"
      using mb same by metis
    ultimately show False by simp
  qed
  from out present exact mb mem changed show ?thesis by blast
qed

theorem composeWorkflow_no_rollback_witness:
  "steps failingWorkflow = [baseStep, swapStep] @ bridgeStep # [yieldStep]
   \<and> discoverAgents promoted (agentCapability baseStep) \<noteq> []
   \<and> discoverAgents promoted (agentCapability swapStep) \<noteq> []
   \<and> discoverAgents promoted (agentCapability bridgeStep) = []
   \<and> fst (composeWorkflow exampleUuids exampleClock promoted failingWorkflow) =
        Inl (NoAgentWithCapability ''bridge'')
   \<and> mailbox promoted ''swap-1'' = []
   \<and> map timestamp
        (mailbox (snd (composeWorkflow exampleUuids exampleClock promoted failingWorkflow))
           ''swap-1'') = [7000, 7001]
   \<and> map msg_type
        (mailbox (snd (composeWorkflow exampleUuids exampleClock promoted failingWorkflow))
           ''swap-1'') = [Delegation, Delegation]
   \<and> getDelegation (snd (composeWorkflow exampleUuids exampleClock promoted failingWorkflow))
        ''uuid-i'' \<noteq> None
   \<and> snd (composeWorkflow exampleUuids exampleClock promoted failingWorkflow) \<noteq> promoted"
proof -
  let ?final = "snd (composeWorkflow exampleUuids exampleClock promoted failingWorkflow)"
  have h1: "steps failingWorkflow = [baseStep, swapStep] @ bridgeStep # [yieldStep]"
    by (simp add: failingWorkflow_def)
  have h2: "\<forall>p \<in> set [baseStep, swapStep]. discoverAgents promoted (agentCapability p) \<noteq> []"
    by code_simp
  have h3: "discoverAgents promoted (agentCapability bridgeStep) = []"
    by code_simp
  have b: "bestAgent promoted ''base'' = bestAgent promoted ''swap''"
    "agent_id (bestAgent promoted ''swap'') = ''swap-1''"
    by code_simp+
  have m0: "mailbox promoted ''swap-1'' = []"
    by code_simp
  note nr = composeWorkflow_no_rollback [OF h1 h2 h3, of exampleUuids exampleClock]
  from nr have out: "fst (composeWorkflow exampleUuids exampleClock promoted failingWorkflow) =
        Inl (NoAgentWithCapability ''bridge'')"
    by (simp add: bridgeStep_def)
  from nr have "mailbox ?final ''swap-1'' =
      mailbox promoted ''swap-1'' @
        map (\<lambda>(j, s). stepMessage exampleUuids exampleClock (workflow_name failingWorkflow) promoted j s)
          (filter (\<lambda>(j, s). agent_id (bestAgent promoted (agentCapability s)) = ''swap-1'')
             (enumerate 0 [baseStep, swapStep]))"
    by blast
  then have mb: "mailbox ?final ''swap-1'' =
      [stepMessage exampleUuids exampleClock (workflow_name failingWorkflow) promoted 0 baseStep,
       stepMessage exampleUuids exampleClock (workflow_name failingWorkflow) promoted 1 swapStep]"
    by (simp add: m0 b baseStep_def swapStep_def)
  have ts: "map timestamp (mailbox ?final ''swap-1'') = [7000, 7001]"
    by (simp add: mb stepMessage_def exampleClock_def)
  have ty: "map msg_type (mailbox ?final ''swap-1'') = [Delegation, Delegation]"
    by (simp add: mb stepMessage_def)
  from nr have "getDelegation ?final (exampleUuids 0) \<noteq> None" by simp
  then have dl: "getDelegation ?final ''uuid-i'' \<noteq> None"
    by (simp add: exampleUuids_def)
  from nr have ch: "?final \<noteq> promoted" by simp
  have e: "discoverAgents promoted (agentCapability baseStep) \<noteq> []"
    "discoverAgents promoted (agentCapability swapStep) \<noteq> []"
    using h2 by simp_all
  from h1 e h3 out m0 ts ty dl ch show ?thesis by blast
qed

subsection \<open>The envelopes of the blockchain tools\<close>

text \<open>
  Claim C4, as the code has it. Every tool returns an object for every outcome of its
  underlying calls (the functions are total: no exception leaves a tool). When a call
  throws (for \<open>getAaveDataTool\<close> the parser of the signature or the read), the object has
  \<open>success: false\<close> and carries the error message: as the
  property \<open>error\<close> for \<open>callContract\<close>, \<open>buildTransactionTool\<close>, \<open>getAaveDataTool\<close> and
  \<open>getUniswapPoolTool\<close>, and inside \<open>simulation\<close> (with \<open>willSucceed: false\<close> and no
  top-level \<open>error\<close>) for \<open>simulateTransactionTool\<close>. The chain is echoed by
  \<open>callContract\<close> (with the contract), \<open>simulateTransactionTool\<close>, \<open>getAaveDataTool\<close> and
  \<open>getUniswapPoolTool\<close> (with the protocol), and not by \<open>buildTransactionTool\<close>. On
  success these five return \<open>success: true\<close> and the chain;
  \<open>getMultiChainBalanceTool\<close> returns \<open>success: true\<close> with the address, the token and
  the balances and has no \<open>chain\<close> property.
\<close>

theorem tool_envelopes:
  "getProp (callContract cp (Throws m)) ''success'' = Some (JBool False)
   \<and> getProp (callContract cp (Throws m)) ''error'' = Some (JStr m)
   \<and> getProp (callContract cp (Throws m)) ''chain'' = Some (JStr (chainName (chain cp)))
   \<and> getProp (callContract cp (Throws m)) ''contract'' = Some (JStr (contractAddress cp))
   \<and> simulateTransactionTool sp (Throws m) gas = simulationFailed sp m
   \<and> simulateTransactionTool sp (Returns d) (Throws m) = simulationFailed sp m
   \<and> getProp (simulationFailed sp m) ''success'' = Some (JBool False)
   \<and> getProp (simulationFailed sp m) ''chain'' = Some (JStr (chainName (sim_chain sp)))
   \<and> getProp (simulationFailed sp m) ''simulation'' =
        Some (JObj [(''willSucceed'', JBool False), (''error'', JStr m)])
   \<and> getProp (simulationFailed sp m) ''error'' = None
   \<and> getProp (buildTransactionTool bp (Throws m)) ''success'' = Some (JBool False)
   \<and> getProp (buildTransactionTool bp (Throws m)) ''error'' = Some (JStr m)
   \<and> getProp (buildTransactionTool bp (Throws m)) ''chain'' = None
   \<and> getAaveDataTool (\<lambda>signatures. Throws m) toISO ap rc = aaveFailed ap m
   \<and> getAaveDataTool (\<lambda>signatures. Returns parsed) toISO ap (Throws m) = aaveFailed ap m
   \<and> getProp (aaveFailed ap m) ''success'' = Some (JBool False)
   \<and> getProp (aaveFailed ap m) ''error'' = Some (JStr m)
   \<and> getProp (aaveFailed ap m) ''chain'' = Some (JStr (chainName (aave_chain ap)))
   \<and> getProp (aaveFailed ap m) ''protocol'' = Some (JStr ''Aave V3'')
   \<and> getProp (getUniswapPoolTool n2s pp (Throws m)) ''success'' = Some (JBool False)
   \<and> getProp (getUniswapPoolTool n2s pp (Throws m)) ''error'' = Some (JStr m)
   \<and> getProp (getUniswapPoolTool n2s pp (Throws m)) ''chain'' = Some (JStr (chainName (pool_chain pp)))
   \<and> getProp (getUniswapPoolTool n2s pp (Throws m)) ''protocol'' = Some (JStr ''Uniswap V3'')
   \<and> getProp (callContract cp (Returns v)) ''success'' = Some (JBool True)
   \<and> getProp (callContract cp (Returns v)) ''chain'' = Some (JStr (chainName (chain cp)))
   \<and> getProp (simulateTransactionTool sp (Returns d) (Returns g)) ''success'' = Some (JBool True)
   \<and> getProp (simulateTransactionTool sp (Returns d) (Returns g)) ''chain'' =
        Some (JStr (chainName (sim_chain sp)))
   \<and> getProp (buildTransactionTool bp (Returns enc)) ''success'' = Some (JBool True)
   \<and> getProp (buildTransactionTool bp (Returns enc)) ''chain'' = Some (JStr (chainName (chain bp)))
   \<and> getProp (getAaveDataTool (\<lambda>signatures. Returns parsed) toISO ap (Returns rd)) ''success'' =
        Some (JBool True)
   \<and> getProp (getAaveDataTool (\<lambda>signatures. Returns parsed) toISO ap (Returns rd)) ''chain'' =
        Some (JStr (chainName (aave_chain ap)))
   \<and> getProp (getUniswapPoolTool n2s pp (Returns pr)) ''success'' = Some (JBool True)
   \<and> getProp (getUniswapPoolTool n2s pp (Returns pr)) ''chain'' = Some (JStr (chainName (pool_chain pp)))
   \<and> getProp (getMultiChainBalanceTool mp balanceOf settledAt) ''success'' = Some (JBool True)
   \<and> getProp (getMultiChainBalanceTool mp balanceOf settledAt) ''chain'' = None"
  by (simp add: getProp_def callContract_def simulateTransactionTool_def simulationFailed_def
        buildTransactionTool_def getAaveDataTool_def aaveFailed_def getUniswapPoolTool_def
        getMultiChainBalanceTool_def)

text \<open>The envelope of the specification fails for \<open>buildTransactionTool\<close>: when the
  encoder throws, the returned object has no \<open>chain\<close> property.\<close>

theorem buildTransaction_failure_has_no_chain:
  "buildTransactionTool exampleBuildParams (Throws ''Function supply not found on ABI'') =
     [(''success'', JBool False), (''error'', JStr ''Function supply not found on ABI'')]
   \<and> getProp (buildTransactionTool exampleBuildParams
                 (Throws ''Function supply not found on ABI'')) ''chain'' = None"
  by (simp add: buildTransactionTool_def getProp_def)

subsection \<open>Balances on several chains\<close>

lemma inj_chainName: "chainName a = chainName b \<Longrightarrow> a = b"
  by (cases a; cases b) simp_all

lemma assignBalances_other:
  "c \<notin> fst ` set ps \<Longrightarrow>
   mapGet (assignBalances ps acc) (chainName c) = mapGet acc (chainName c)"
proof (induction ps arbitrary: acc)
  case Nil
  then show ?case by simp
next
  case (Cons p ps)
  obtain c' r where p: "p = (c', r)" by (cases p)
  from Cons.prems p have ne: "c' \<noteq> c" and rest: "c \<notin> fst ` set ps" by auto
  from ne have "chainName c \<noteq> chainName c'" using inj_chainName by blast
  then show ?case
    by (simp add: p Cons.IH[OF rest] mapGet_mapSet_other)
qed

text \<open>The slot of a chain holds the read of that chain that settled last.\<close>

lemma assignBalances_last:
  "filter (\<lambda>p. fst p = c) ps \<noteq> [] \<Longrightarrow>
   mapGet (assignBalances ps acc) (chainName c) =
     Some (JStr (balanceSlot (snd (last (filter (\<lambda>p. fst p = c) ps)))))"
proof (induction ps arbitrary: acc)
  case Nil
  then show ?case by simp
next
  case (Cons p ps)
  obtain c' r where p: "p = (c', r)" by (cases p)
  show ?case
  proof (cases "filter (\<lambda>p. fst p = c) ps = []")
    case False
    then show ?thesis
      by (simp add: p Cons.IH[OF False])
  next
    case True
    with Cons.prems p have eq: "c' = c" by (auto split: if_splits)
    from True have "c \<notin> fst ` set ps" by (auto simp: filter_empty_conv)
    then show ?thesis
      by (simp add: p eq True assignBalances_other mapGet_mapSet_same)
  qed
qed

lemma set_settledReads:
  "set (settledReads cs f r) = (\<lambda>i. (cs ! i, f i)) ` {0..<length cs}"
  by (simp add: settledReads_def)

lemma settledReads_filter_nonempty:
  assumes "c \<in> set cs"
  shows "filter (\<lambda>p. fst p = c) (settledReads cs f r) \<noteq> []"
proof -
  from assms obtain i where i: "i < length cs" "cs ! i = c" by (auto simp: in_set_conv_nth)
  then have "(c, f i) \<in> set (settledReads cs f r)"
    unfolding set_settledReads by force
  then show ?thesis by (force simp: filter_empty_conv)
qed

lemma settledReads_last:
  assumes "c \<in> set cs"
  shows "\<exists>i < length cs. cs ! i = c \<and>
           last (filter (\<lambda>p. fst p = c) (settledReads cs f r)) = (c, f i)"
proof -
  let ?fl = "filter (\<lambda>p. fst p = c) (settledReads cs f r)"
  have ne: "?fl \<noteq> []" by (rule settledReads_filter_nonempty[OF assms])
  then have "last ?fl \<in> set ?fl" by (rule last_in_set)
  then have m: "last ?fl \<in> set (settledReads cs f r)" and k: "fst (last ?fl) = c" by simp_all
  from m obtain i where i: "i < length cs" and l: "last ?fl = (cs ! i, f i)"
    unfolding set_settledReads by auto
  from k l have "cs ! i = c" by simp
  with i l show ?thesis by auto
qed

lemma balanceOn_tool:
  "balanceOn (getMultiChainBalanceTool params f r) c =
     mapGet (assignBalances (settledReads (balance_chains params) f r) []) (chainName c)"
  by (simp add: balanceOn_def getProp_def getMultiChainBalanceTool_def)

lemma isDigit_digitChar: "d < 10 \<Longrightarrow> isDigit (digitChar d)"
proof -
  assume "d < 10"
  then have "d = 0 \<or> d = 1 \<or> d = 2 \<or> d = 3 \<or> d = 4 \<or> d = 5 \<or> d = 6 \<or> d = 7 \<or> d = 8 \<or> d = 9"
    by arith
  then show ?thesis
    by (elim disjE) (simp_all add: digitChar_def isDigit_def)
qed

lemma natToString_digits: "natToString n \<noteq> [] \<and> list_all isDigit (natToString n)"
proof (induction n rule: natToString.induct)
  case (1 n)
  show ?case
  proof (cases "n < 10")
    case True
    then show ?thesis
      by (subst natToString.simps, subst (2) natToString.simps) (simp add: isDigit_digitChar)
  next
    case False
    with 1 have ih: "natToString (n div 10) \<noteq> [] \<and> list_all isDigit (natToString (n div 10))"
      by simp
    have d: "isDigit (digitChar (n mod 10))" by (simp add: isDigit_digitChar)
    from False ih d show ?thesis
      by (subst natToString.simps, subst (2) natToString.simps) simp
  qed
qed

text \<open>
  Claim C8. For every request, every outcome of the reads and every order in which they
  settle, the result has \<open>success: true\<close>. The slot of each requested chain holds the
  text of the read of that chain that settled last: when the chains of the request are
  distinct, the slot of the \<open>i\<close>-th chain is that of the \<open>i\<close>-th read, and when the
  outcome of a read depends on its chain only, the slot of a chain is that of the chain's
  outcome. The text of a read that threw is \<open>Error: \<close> followed by the message, the text
  of a read that returned is the decimal digits of the balance. The chains that were not
  requested have no slot.
\<close>

theorem multiChainBalance_partial_failure:
  "getProp (getMultiChainBalanceTool params balanceOf settledAt) ''success'' = Some (JBool True)
   \<and> (\<forall>c \<in> set (balance_chains params).
         balanceOn (getMultiChainBalanceTool params balanceOf settledAt) c =
           Some (JStr (balanceSlot (snd (last (filter (\<lambda>p. fst p = c)
                   (settledReads (balance_chains params) balanceOf settledAt)))))))
   \<and> (distinct (balance_chains params) \<longrightarrow>
         (\<forall>i < length (balance_chains params).
            balanceOn (getMultiChainBalanceTool params balanceOf settledAt)
              (balance_chains params ! i) = Some (JStr (balanceSlot (balanceOf i)))))
   \<and> ((\<forall>i < length (balance_chains params). balanceOf i = perChain (balance_chains params ! i))
        \<longrightarrow> (\<forall>c \<in> set (balance_chains params).
               balanceOn (getMultiChainBalanceTool params balanceOf settledAt) c =
                 Some (JStr (balanceSlot (perChain c)))))
   \<and> (\<forall>m. balanceSlot (Throws m) = ''Error: '' @ m)
   \<and> (\<forall>b. balanceSlot (Returns b) = natToString b \<and> natToString b \<noteq> [] \<and>
         list_all isDigit (natToString b))
   \<and> (\<forall>c. c \<notin> set (balance_chains params) \<longrightarrow>
         balanceOn (getMultiChainBalanceTool params balanceOf settledAt) c = None)"
proof -
  let ?cs = "balance_chains params"
  let ?R = "getMultiChainBalanceTool params balanceOf settledAt"
  let ?ps = "settledReads ?cs balanceOf settledAt"
  have ok: "getProp ?R ''success'' = Some (JBool True)"
    by (simp add: getProp_def getMultiChainBalanceTool_def)
  have exact: "\<forall>c \<in> set ?cs.
         balanceOn ?R c = Some (JStr (balanceSlot (snd (last (filter (\<lambda>p. fst p = c) ?ps)))))"
  proof
    fix c assume "c \<in> set ?cs"
    then have ne: "filter (\<lambda>p. fst p = c) ?ps \<noteq> []" by (rule settledReads_filter_nonempty)
    show "balanceOn ?R c = Some (JStr (balanceSlot (snd (last (filter (\<lambda>p. fst p = c) ?ps)))))"
      unfolding balanceOn_tool by (rule assignBalances_last[OF ne])
  qed
  have some: "\<exists>i < length ?cs. ?cs ! i = c \<and> balanceOn ?R c = Some (JStr (balanceSlot (balanceOf i)))"
    if c: "c \<in> set ?cs" for c
  proof -
    from settledReads_last[OF c, of balanceOf settledAt]
    obtain i where i: "i < length ?cs" "?cs ! i = c"
      and l: "last (filter (\<lambda>p. fst p = c) ?ps) = (c, balanceOf i)" by blast
    from exact c l have "balanceOn ?R c = Some (JStr (balanceSlot (balanceOf i)))" by simp
    with i show ?thesis by blast
  qed
  have dist: "\<forall>i < length ?cs. balanceOn ?R (?cs ! i) = Some (JStr (balanceSlot (balanceOf i)))"
    if d: "distinct ?cs"
  proof (intro allI impI)
    fix i assume i: "i < length ?cs"
    then have "?cs ! i \<in> set ?cs" by simp
    from some[OF this] obtain j where j: "j < length ?cs" "?cs ! j = ?cs ! i"
      and b: "balanceOn ?R (?cs ! i) = Some (JStr (balanceSlot (balanceOf j)))" by blast
    from d i j have "j = i" by (simp add: nth_eq_iff_index_eq)
    with b show "balanceOn ?R (?cs ! i) = Some (JStr (balanceSlot (balanceOf i)))" by simp
  qed
  have per: "\<forall>c \<in> set ?cs. balanceOn ?R c = Some (JStr (balanceSlot (perChain c)))"
    if f: "\<forall>i < length ?cs. balanceOf i = perChain (?cs ! i)"
  proof
    fix c assume "c \<in> set ?cs"
    from some[OF this] obtain j where j: "j < length ?cs" "?cs ! j = c"
      and b: "balanceOn ?R c = Some (JStr (balanceSlot (balanceOf j)))" by blast
    from f j have "balanceOf j = perChain c" by auto
    with b show "balanceOn ?R c = Some (JStr (balanceSlot (perChain c)))" by simp
  qed
  have thr: "\<forall>m. balanceSlot (Throws m) = ''Error: '' @ m"
    by (simp add: balanceSlot_def)
  have ret: "\<forall>b. balanceSlot (Returns b) = natToString b \<and> natToString b \<noteq> [] \<and>
         list_all isDigit (natToString b)"
    using natToString_digits by (simp add: balanceSlot_def)
  have none: "\<forall>c. c \<notin> set ?cs \<longrightarrow> balanceOn ?R c = None"
  proof (intro allI impI)
    fix c assume "c \<notin> set ?cs"
    then have "c \<notin> fst ` set ?ps"
      unfolding set_settledReads by force
    then show "balanceOn ?R c = None"
      by (simp add: balanceOn_tool assignBalances_other)
  qed
  from ok exact dist per thr ret none show ?thesis by blast
qed

theorem multiChainBalance_partial_failure_witness:
  "distinct (balance_chains exampleBalanceParams)
   \<and> balance_chains exampleBalanceParams = [Base, Arbitrum, Polygon]
   \<and> exampleReads 0 = exampleBalances Base
   \<and> exampleReads 1 = exampleBalances Arbitrum
   \<and> exampleReads 2 = exampleBalances Polygon
   \<and> exampleReads 1 = Throws ''HTTP request failed''
   \<and> Optimism \<notin> set (balance_chains exampleBalanceParams)
   \<and> getProp (getMultiChainBalanceTool exampleBalanceParams exampleReads exampleSettledAt)
        ''success'' = Some (JBool True)
   \<and> balanceOn (getMultiChainBalanceTool exampleBalanceParams exampleReads exampleSettledAt)
        Arbitrum = Some (JStr ''Error: HTTP request failed'')
   \<and> balanceOn (getMultiChainBalanceTool exampleBalanceParams exampleReads exampleSettledAt)
        Base = Some (JStr ''1500000'')
   \<and> balanceOn (getMultiChainBalanceTool exampleBalanceParams exampleReads exampleSettledAt)
        Polygon = Some (JStr ''0'')
   \<and> balanceOn (getMultiChainBalanceTool exampleBalanceParams exampleReads exampleSettledAt)
        Optimism = None"
proof -
  let ?R = "getMultiChainBalanceTool exampleBalanceParams exampleReads exampleSettledAt"
  have cs: "balance_chains exampleBalanceParams = [Base, Arbitrum, Polygon]"
    by (simp add: exampleBalanceParams_def)
  have d: "distinct (balance_chains exampleBalanceParams)" by (simp add: cs)
  have r0: "exampleReads 0 = exampleBalances Base"
    and r1: "exampleReads 1 = exampleBalances Arbitrum"
    and r2: "exampleReads 2 = exampleBalances Polygon"
    and t1: "exampleReads 1 = Throws ''HTTP request failed''"
    by (simp_all add: exampleReads_def)
  have per: "\<forall>i < length (balance_chains exampleBalanceParams).
               exampleReads i = exampleBalances (balance_chains exampleBalanceParams ! i)"
    unfolding cs by (auto simp: less_Suc_eq numeral_3_eq_3 exampleReads_def)
  have h3: "Optimism \<notin> set (balance_chains exampleBalanceParams)" by (simp add: cs)
  have s1: "natToString 1500000 = ''1500000''" by (simp add: natToString.simps digitChar_def)
  have s2: "natToString 0 = ''0''" by (simp add: natToString.simps digitChar_def)
  note spec = multiChainBalance_partial_failure
                [of exampleBalanceParams exampleReads exampleSettledAt exampleBalances]
  from spec have ok: "getProp ?R ''success'' = Some (JBool True)" by blast
  from spec per
  have slots: "\<forall>c \<in> set (balance_chains exampleBalanceParams).
                 balanceOn ?R c = Some (JStr (balanceSlot (exampleBalances c)))"
    by blast
  from spec d
  have byPos: "\<forall>i < length (balance_chains exampleBalanceParams).
                 balanceOn ?R (balance_chains exampleBalanceParams ! i) =
                   Some (JStr (balanceSlot (exampleReads i)))"
    by blast
  have "1 < length (balance_chains exampleBalanceParams)" by (simp add: cs)
  with byPos have "balanceOn ?R (balance_chains exampleBalanceParams ! 1) =
                     Some (JStr (balanceSlot (exampleReads 1)))"
    by blast
  then have a: "balanceOn ?R Arbitrum = Some (JStr (balanceSlot (exampleReads 1)))"
    by (simp add: cs)
  then have a': "balanceOn ?R Arbitrum = Some (JStr ''Error: HTTP request failed'')"
    by (simp add: exampleReads_def balanceSlot_def)
  from slots have b: "balanceOn ?R Base = Some (JStr (balanceSlot (exampleBalances Base)))"
    unfolding cs by simp
  then have b': "balanceOn ?R Base = Some (JStr ''1500000'')"
    by (simp add: balanceSlot_def s1)
  from slots have p: "balanceOn ?R Polygon = Some (JStr (balanceSlot (exampleBalances Polygon)))"
    unfolding cs by simp
  then have p': "balanceOn ?R Polygon = Some (JStr ''0'')"
    by (simp add: balanceSlot_def s2)
  from spec h3 have n: "balanceOn ?R Optimism = None" by blast
  from d cs r0 r1 r2 t1 h3 ok a' b' p' n show ?thesis by blast
qed

text \<open>In the example the last read settles first, and the properties of \<open>balances\<close> are
  in that order.\<close>

lemma balances_in_completion_order:
  "map fst (assignBalances
              (settledReads (balance_chains exampleBalanceParams) exampleReads exampleSettledAt)
              []) = [''polygon'', ''arbitrum'', ''base'']"
  by (simp add: settledReads_def exampleBalanceParams_def exampleSettledAt_def numeral_3_eq_3)

subsection \<open>The number model\<close>

lemma pow2_powi: "pow2 k = 2 powi k"
  by (simp add: pow2_def power_int_def power_inverse[symmetric] inverse_eq_divide)
     (simp add: power_one_over)

lemma pow2_pos: "0 < pow2 k"
  by (simp add: pow2_powi)

lemma pow2_add: "pow2 (a + b) = pow2 a * pow2 b"
  by (simp add: pow2_powi power_int_add)

lemma pow2_diff: "pow2 (a - b) = pow2 a / pow2 b"
  by (simp add: pow2_powi power_int_diff)

lemma pow2_nat: "0 \<le> k \<Longrightarrow> pow2 k = 2 ^ nat k"
  by (simp add: pow2_def)

lemma bitLength_bounds:
  "0 < n \<Longrightarrow> 0 < bitLength n \<and> 2 ^ nat (bitLength n - 1) \<le> n \<and> n < 2 ^ nat (bitLength n)"
proof (induction n rule: bitLength.induct)
  case (1 n)
  have bl: "bitLength n = 1 + bitLength (n div 2)"
    using "1.prems" by (subst bitLength.simps) simp
  show ?case
  proof (cases "n div 2 = 0")
    case True
    with "1.prems" have n1: "n = 1" by presburger
    have "bitLength (n div 2) = 0" using True by (subst bitLength.simps) simp
    with bl n1 show ?thesis by simp
  next
    case False
    with "1.prems" have m: "0 < n div 2" by presburger
    from "1.IH" [OF _ m] "1.prems"
    have ih: "0 < bitLength (n div 2)"
      "2 ^ nat (bitLength (n div 2) - 1) \<le> n div 2"
      "n div 2 < 2 ^ nat (bitLength (n div 2))"
      by simp_all
    have e1: "nat (bitLength n - 1) = Suc (nat (bitLength (n div 2) - 1))"
      using ih(1) bl by simp
    have e2: "nat (bitLength n) = Suc (nat (bitLength (n div 2)))"
      using ih(1) bl by simp
    have "2 * (n div 2) \<le> n" by presburger
    with ih(2) have lo: "2 ^ nat (bitLength n - 1) \<le> n"
      unfolding e1 by simp
    have "n < 2 * (n div 2 + 1)" by presburger
    moreover have "n div 2 + 1 \<le> 2 ^ nat (bitLength (n div 2))" using ih(3) by simp
    ultimately have hi: "n < 2 ^ nat (bitLength n)"
      unfolding e2 by simp
    from ih(1) bl lo hi show ?thesis by simp
  qed
qed


lemma quotient_of_pos:
  assumes "0 < x" and "quotient_of x = (p, q)"
  shows "0 < p" and "0 < q" and "x = of_int p / of_int q"
proof -
  show q: "0 < q" using assms(2) by (rule quotient_of_denom_pos)
  show x: "x = of_int p / of_int q" using assms(2) by (rule quotient_of_div)
  from assms(1) x q show "0 < p" by (simp add: zero_less_divide_iff)
qed

text \<open>\<open>exponentOf\<close> is the binary exponent: \<open>2 ^ e \<le> x < 2 ^ (e + 1)\<close>.\<close>

lemma exponentOf_bounds:
  assumes "0 < x"
  shows "pow2 (exponentOf x) \<le> x" and "x < pow2 (exponentOf x + 1)"
proof -
  obtain p q where pq: "quotient_of x = (p, q)" by force
  note pos = quotient_of_pos[OF assms pq]
  let ?bp = "bitLength p" and ?bq = "bitLength q"
  let ?k = "?bp - ?bq"
  from bitLength_bounds[OF pos(1)]
  have bp: "0 < ?bp" "2 ^ nat (?bp - 1) \<le> p" "p < 2 ^ nat ?bp" by simp_all
  from bitLength_bounds[OF pos(2)]
  have bq: "0 < ?bq" "2 ^ nat (?bq - 1) \<le> q" "q < 2 ^ nat ?bq" by simp_all
  have p_lo: "pow2 (?bp - 1) \<le> of_int p"
  proof -
    have "(of_int (2 ^ nat (?bp - 1)) :: rat) \<le> of_int p" using bp(2) by (simp only: of_int_le_iff)
    then show ?thesis using bp(1) by (simp add: pow2_nat)
  qed
  have p_hi: "of_int p < pow2 ?bp"
  proof -
    have "(of_int p :: rat) < of_int (2 ^ nat ?bp)" using bp(3) by (simp only: of_int_less_iff)
    then show ?thesis using bp(1) by (simp add: pow2_nat)
  qed
  have q_lo: "pow2 (?bq - 1) \<le> of_int q"
  proof -
    have "(of_int (2 ^ nat (?bq - 1)) :: rat) \<le> of_int q" using bq(2) by (simp only: of_int_le_iff)
    then show ?thesis using bq(1) by (simp add: pow2_nat)
  qed
  have q_hi: "of_int q < pow2 ?bq"
  proof -
    have "(of_int q :: rat) < of_int (2 ^ nat ?bq)" using bq(3) by (simp only: of_int_less_iff)
    then show ?thesis using bq(1) by (simp add: pow2_nat)
  qed
  have qpos: "(0::rat) < of_int q" using pos(2) by simp
  have ppos: "(0::rat) < of_int p" using pos(1) by simp
  have lower: "pow2 (?k - 1) \<le> x"
  proof -
    have "pow2 (?k - 1) = pow2 ((?bp - 1) - ?bq)" by (simp add: algebra_simps)
    also have "\<dots> = pow2 (?bp - 1) / pow2 ?bq" by (rule pow2_diff)
    also have "\<dots> \<le> of_int p / of_int q"
      by (rule frac_le) (use p_lo q_hi qpos pow2_pos[of "?bp - 1"] in \<open>simp_all add: less_imp_le\<close>)
    finally show ?thesis by (simp add: pos(3))
  qed
  have upper: "x < pow2 (?k + 1)"
  proof -
    have "of_int p / of_int q < pow2 ?bp / pow2 (?bq - 1)"
      by (rule frac_less) (use p_hi q_lo ppos pow2_pos[of "?bq - 1"] in \<open>simp_all add: less_imp_le\<close>)
    also have "\<dots> = pow2 (?bp - (?bq - 1))" by (rule pow2_diff[symmetric])
    also have "\<dots> = pow2 (?k + 1)" by (simp add: algebra_simps)
    finally show ?thesis by (simp add: pos(3))
  qed
  have e: "exponentOf x = (if pow2 ?k \<le> x then ?k else ?k - 1)"
    by (simp add: exponentOf_def pq Let_def)
  show "pow2 (exponentOf x) \<le> x"
    using lower by (simp add: e)
  show "x < pow2 (exponentOf x + 1)"
    using upper by (simp add: e not_le)
qed

lemma roundHalfEven_error: "\<bar>of_int (roundHalfEven q) - q\<bar> \<le> 1 / 2"
proof -
  define f :: rat where "f = of_int \<lfloor>q\<rfloor>"
  define r :: rat where "r = of_int (roundHalfEven q)"
  have a: "f \<le> q" unfolding f_def by (rule of_int_floor_le)
  have b: "q < f + 1" unfolding f_def using floor_correct[of q] by simp
  have "r = f \<and> q - f \<le> 1 / 2 \<or> r = f + 1 \<and> 1 / 2 \<le> q - f"
    unfolding f_def r_def by (auto simp: roundHalfEven_def Let_def)
  with a b have "\<bar>r - q\<bar> \<le> 1 / 2" by linarith
  then show ?thesis by (simp add: r_def)
qed

text \<open>Rounding moves a positive value by at most half a unit in the last place, which
  is at most the value times \<open>2 ^ -53\<close>.\<close>

lemma toDouble_error:
  assumes "0 < x"
  shows "\<bar>toDouble x - x\<bar> \<le> x / 2 ^ 53"
proof -
  let ?e = "exponentOf x"
  let ?ulp = "pow2 (?e - 52)"
  let ?m = "roundHalfEven (x / ?ulp)"
  have up: "0 < ?ulp" by (rule pow2_pos)
  have td: "toDouble x = of_int ?m * ?ulp"
    using assms by (simp add: toDouble_def roundPos_def Let_def)
  have "\<bar>of_int ?m * ?ulp - x\<bar> = \<bar>of_int ?m - x / ?ulp\<bar> * ?ulp"
  proof -
    have "of_int ?m * ?ulp - x = (of_int ?m - x / ?ulp) * ?ulp"
      using up by (simp add: field_simps)
    then show ?thesis using up by (simp add: abs_mult)
  qed
  also have "\<dots> \<le> (1 / 2) * ?ulp"
    by (rule mult_right_mono[OF roundHalfEven_error]) (use up in simp)
  also have "\<dots> = pow2 ?e / 2 ^ 53"
  proof -
    have "?ulp = pow2 ?e / pow2 52" by (rule pow2_diff)
    then show ?thesis by (simp add: pow2_def)
  qed
  also have "\<dots> \<le> x / 2 ^ 53"
    using exponentOf_bounds(1)[OF assms] by (simp add: divide_right_mono)
  finally show ?thesis by (simp add: td)
qed

lemma toDouble_bounds:
  assumes "0 < x"
  shows "x * (1 - 1 / 2 ^ 53) \<le> toDouble x" and "toDouble x \<le> x * (1 + 1 / 2 ^ 53)"
    and "0 < toDouble x"
proof -
  define d where "d = x / 2 ^ 53"
  define t where "t = toDouble x"
  have e: "\<bar>t - x\<bar> \<le> d" unfolding d_def t_def by (rule toDouble_error[OF assms])
  have lo: "x - d \<le> t" and hi: "t \<le> x + d" using e by linarith+
  have m1: "x * (1 - 1 / 2 ^ 53) = x - d" unfolding d_def by (simp only: right_diff_distrib mult_1_right times_divide_eq_right)
  have m2: "x * (1 + 1 / 2 ^ 53) = x + d" unfolding d_def by (simp only: distrib_left mult_1_right times_divide_eq_right)
  show "x * (1 - 1 / 2 ^ 53) \<le> toDouble x" using lo by (simp only: m1 t_def)
  show "toDouble x \<le> x * (1 + 1 / 2 ^ 53)" using hi by (simp only: m2 t_def)
  have "d < x" unfolding d_def using assms by simp
  with lo show "0 < toDouble x" unfolding t_def by linarith
qed


subsection \<open>The Aave rate conversion\<close>

lemma double_1e27: "toDouble (10 ^ 27) = 1000000000000000013287555072"
  by code_simp

lemma rateToAPY_zero: "rateToAPY 0 = 0"
  by (simp add: rateToAPY_def numMul_def numDiv_def numberOfBigInt_def toDouble_def)

text \<open>The computed number is the exact percentage \<open>rate / 10 ^ 27 * 100\<close> up to a relative
  error of \<open>2 ^ -50\<close>: four roundings (the rate, the literal, the quotient, the
  product), each of relative error at most \<open>2 ^ -53\<close>.\<close>

lemma rateToAPY_accuracy:
  "\<bar>rateToAPY rate - of_nat rate / 10 ^ 27 * 100\<bar> \<le> (of_nat rate / 10 ^ 27 * 100) / 2 ^ 50"
proof (cases "rate = 0")
  case True
  then show ?thesis by (simp add: rateToAPY_zero)
next
  case False
  define r :: rat where "r = of_nat rate"
  define u :: rat where "u = 1 / 2 ^ 53"
  define T :: rat where "T = 10 ^ 27"
  define a where "a = toDouble r"
  define b where "b = toDouble T"
  define c where "c = toDouble (a / b)"
  define v where "v = toDouble (c * 100)"
  define E where "E = r / T * 100"
  have rpos: "0 < r" using False by (simp add: r_def)
  have Tpos: "0 < T" by (simp add: T_def)
  have u0: "0 < u" and u1: "u < 1" by (simp_all add: u_def)
  have n1: "(1 + u) * (1 + u) * (1 + u) \<le> 1 + 8 * u" by (simp add: u_def)
  have n2: "(1 - 8 * u) * (1 + u) \<le> (1 - u) * (1 - u) * (1 - u)" by (simp add: u_def)
  have Epos: "0 < E" using rpos Tpos by (simp add: E_def)
  have v_eq: "rateToAPY rate = v"
    by (simp add: rateToAPY_def numMul_def numDiv_def numberOfBigInt_def v_def c_def a_def
          b_def r_def T_def)
  have a_lo: "r * (1 - u) \<le> a" and a_hi: "a \<le> r * (1 + u)" and apos: "0 < a"
    unfolding a_def u_def using toDouble_bounds[OF rpos] by simp_all
  have b_val: "b = 1000000000000000013287555072"
    unfolding b_def T_def by (rule double_1e27)
  have b_lo: "T \<le> b" and b_hi: "b \<le> T * (1 + u)"
    unfolding b_val T_def u_def by simp_all
  have bpos: "0 < b" using Tpos b_lo by linarith
  have abpos: "0 < a / b" using apos bpos by simp
  have c_lo: "a / b * (1 - u) \<le> c" and c_hi: "c \<le> a / b * (1 + u)" and cpos: "0 < c"
    unfolding c_def u_def using toDouble_bounds[OF abpos] by simp_all
  have c100: "0 < c * 100" using cpos by simp
  have v_lo: "c * 100 * (1 - u) \<le> v" and v_hi: "v \<le> c * 100 * (1 + u)"
    unfolding v_def u_def using toDouble_bounds[OF c100] by simp_all
  have upper: "v \<le> E * (1 + 8 * u)"
  proof -
    have q: "a / b \<le> r * (1 + u) / T"
      by (rule frac_le) (use apos a_hi Tpos b_lo in \<open>simp_all add: less_imp_le\<close>)
    have u_nn: "0 \<le> 1 + u" using u0 by simp
    have "c \<le> r * (1 + u) / T * (1 + u)"
      using c_hi mult_right_mono[OF q u_nn] by linarith
    then have "c * 100 \<le> r * (1 + u) / T * (1 + u) * 100"
      by (rule mult_right_mono) simp
    then have "c * 100 * (1 + u) \<le> r * (1 + u) / T * (1 + u) * 100 * (1 + u)"
      using u_nn by (rule mult_right_mono)
    with v_hi have "v \<le> r * (1 + u) / T * (1 + u) * 100 * (1 + u)" by linarith
    also have "\<dots> = E * ((1 + u) * (1 + u) * (1 + u))"
      by (simp add: E_def)
    also have "\<dots> \<le> E * (1 + 8 * u)"
      using n1 Epos by (simp add: mult_left_mono)
    finally show ?thesis .
  qed
  have lower: "E * (1 - 8 * u) \<le> v"
  proof -
    have one_u: "0 < 1 - u" using u1 by simp
    have q: "r * (1 - u) / (T * (1 + u)) \<le> a / b"
      by (rule frac_le) (use rpos one_u a_lo apos bpos b_hi in \<open>simp_all add: less_imp_le\<close>)
    have u_nn: "0 \<le> 1 - u" using one_u by simp
    have "r * (1 - u) / (T * (1 + u)) * (1 - u) \<le> c"
      using c_lo mult_right_mono[OF q u_nn] by linarith
    then have "r * (1 - u) / (T * (1 + u)) * (1 - u) * 100 \<le> c * 100"
      by (rule mult_right_mono) simp
    then have "r * (1 - u) / (T * (1 + u)) * (1 - u) * 100 * (1 - u) \<le> c * 100 * (1 - u)"
      using u_nn by (rule mult_right_mono)
    with v_lo have w: "r * (1 - u) / (T * (1 + u)) * (1 - u) * 100 * (1 - u) \<le> v" by linarith
    have "E * (1 - 8 * u) = E * ((1 - 8 * u) * (1 + u)) / (1 + u)"
      using u0 by simp
    also have "\<dots> \<le> E * ((1 - u) * (1 - u) * (1 - u)) / (1 + u)"
    proof (rule divide_right_mono)
      show "E * ((1 - 8 * u) * (1 + u)) \<le> E * ((1 - u) * (1 - u) * (1 - u))"
        using n2 by (rule mult_left_mono) (use Epos in simp)
      show "0 \<le> 1 + u" using u0 by simp
    qed
    also have "\<dots> = r * (1 - u) / (T * (1 + u)) * (1 - u) * 100 * (1 - u)"
      by (simp add: E_def)
    finally show ?thesis using w by linarith
  qed
  have "\<bar>v - E\<bar> \<le> E * (8 * u)"
    using upper lower by (simp add: abs_le_iff algebra_simps)
  moreover have "E * (8 * u) = E / 2 ^ 50" by (simp add: u_def)
  ultimately have fin: "\<bar>v - E\<bar> \<le> E / 2 ^ 50" by (simp only:)
  have E_eq: "E = of_nat rate / 10 ^ 27 * 100" by (simp only: E_def r_def T_def)
  show ?thesis using fin by (simp only: v_eq E_eq)
qed

lemma rateToAPY_nonneg: "0 \<le> rateToAPY rate"
proof -
  have "0 \<le> (of_nat rate / 10 ^ 27 * 100 :: rat)" by simp
  moreover have "(of_nat rate / 10 ^ 27 * 100 :: rat) / 2 ^ 50 \<le> of_nat rate / 10 ^ 27 * 100"
    by (simp add: field_simps)
  ultimately show ?thesis using rateToAPY_accuracy[of rate] by linarith
qed


lemma digitChar_0: "digitChar 0 = CHR ''0''"
  by (simp add: digitChar_def)

lemma natToString_small: "n < 10 \<Longrightarrow> natToString n = [digitChar n]"
  by (subst natToString.simps) simp

lemma natToString_step:
  "10 \<le> n \<Longrightarrow> natToString n = natToString (n div 10) @ [digitChar (n mod 10)]"
  by (subst natToString.simps) simp

lemma natToString_split:
  assumes "100 \<le> n"
  shows "natToString n =
           natToString (n div 100) @ [digitChar (n div 10 mod 10), digitChar (n mod 10)]"
proof -
  have a: "10 \<le> n" and b: "10 \<le> n div 10" using assms by simp_all
  have c: "n div 10 div 10 = n div 100" by (simp add: div_mult2_eq[symmetric])
  show ?thesis
    by (simp only: natToString_step[OF a] natToString_step[OF b] c append_assoc append_Cons
          append_Nil)
qed

text \<open>The text of \<open>toFixed(2)\<close>: the integer part, a point and two digits of the nearest
  hundredth.\<close>

lemma toFixed2_format:
  "toFixed2 x =
     (let n = nat \<lfloor>x * 100 + 1 / 2\<rfloor>
      in natToString (n div 100) @ ''.'' @ [digitChar (n div 10 mod 10), digitChar (n mod 10)])"
proof -
  define n where "n = nat \<lfloor>x * 100 + 1 / 2\<rfloor>"
  have "n < 10 \<or> (10 \<le> n \<and> n < 100) \<or> 100 \<le> n" by arith
  then have "(let m = natToString n; m' = replicate (3 - length m) (CHR ''0'') @ m
              in take (length m' - 2) m' @ ''.'' @ drop (length m' - 2) m') =
             natToString (n div 100) @ ''.'' @ [digitChar (n div 10 mod 10), digitChar (n mod 10)]"
  proof (elim disjE)
    assume s: "n < 10"
    then have z: "n div 100 = 0" "n div 10 = 0" "n mod 10 = n" by simp_all
    show ?thesis
      by (simp add: Let_def natToString_small[OF s] z natToString_small[of 0] digitChar_0
            numeral_3_eq_3)
  next
    assume s: "10 \<le> n \<and> n < 100"
    then have z1: "n div 10 < 10" by arith
    from s z1 have z: "n div 100 = 0" "n div 10 < 10" "n div 10 mod 10 = n div 10" by simp_all
    from s have ten: "10 \<le> n" by simp
    have m: "natToString n = [digitChar (n div 10), digitChar (n mod 10)]"
      by (simp only: natToString_step[OF ten] natToString_small[OF z1] append_Cons append_Nil)
    show ?thesis
      by (simp add: Let_def m z natToString_small[of 0] digitChar_0)
  next
    assume s: "100 \<le> n"
    define k where "k = natToString (n div 100)"
    have "k \<noteq> []" unfolding k_def using natToString_digits by blast
    then have len: "1 \<le> length k" by (cases k) simp_all
    have m: "natToString n = k @ [digitChar (n div 10 mod 10), digitChar (n mod 10)]"
      unfolding k_def by (rule natToString_split[OF s])
    show ?thesis
      unfolding Let_def m k_def[symmetric] using len by simp
  qed
  then show ?thesis
    by (simp only: toFixed2_def n_def[symmetric] Let_def)
qed

lemma toFixed2_rounding:
  assumes "0 \<le> (x::rat)"
  shows "\<bar>of_nat (nat \<lfloor>x * 100 + 1 / 2\<rfloor>) / 100 - x\<bar> \<le> 1 / 200"
proof -
  define y where "y = x * 100 + 1 / 2"
  define f :: rat where "f = of_int \<lfloor>y\<rfloor>"
  have ypos: "0 \<le> y" using assms by (simp add: y_def)
  then have "0 \<le> \<lfloor>y\<rfloor>" by simp
  then have nf: "(of_nat (nat \<lfloor>y\<rfloor>) :: rat) = f"
    unfolding f_def by simp
  have a: "f \<le> y" unfolding f_def by (rule of_int_floor_le)
  have b: "y < f + 1" unfolding f_def using floor_correct[of y] by simp
  have x: "x = (y - 1 / 2) / 100" by (simp add: y_def)
  have "\<bar>f / 100 - x\<bar> \<le> 1 / 200"
    using a b unfolding x by (simp add: abs_le_iff field_simps)
  then show ?thesis by (simp only: y_def[symmetric] nf)
qed

text \<open>
  The conversion that the tool applies to a rate: the number
  \<open>(Number(rate) / 1e27) * 100\<close> in binary64 arithmetic, printed by \<open>toFixed(2)\<close> with
  \<open>%\<close> appended. The text is an integer part, a point, two digits and \<open>%\<close>, and the
  hundredths it shows differ from the exact percentage \<open>rate / 10 ^ 27 * 100\<close> by at most
  half a hundredth plus the relative rounding error \<open>2 ^ -50\<close> of the arithmetic. For
  the rate \<open>5 * 10 ^ 25\<close> the text is \<open>5.00%\<close>.
\<close>

lemma apyString_5e25: "apyString (5 * 10 ^ 25) = ''5.00%''"
proof -
  have v: "numMul (numDiv (numberOfBigInt (5 * 10 ^ 25)) (toDouble (10 ^ 27))) 100 = 5"
    by code_simp
  have r: "rateToAPY (5 * 10 ^ 25) = 5"
    unfolding rateToAPY_def using v by simp
  have n: "\<lfloor>(5::rat) * 100 + 1 / 2\<rfloor> = 500" by code_simp
  have f: "toFixed2 5 = ''5.00''"
    unfolding toFixed2_def Let_def n by (simp add: natToString.simps digitChar_def)
  show ?thesis
    unfolding apyString_def r f by simp
qed

lemma apyString_conversion:
  "\<exists>n. apyString rate =
          natToString (n div 100) @ ''.'' @
            [digitChar (n div 10 mod 10), digitChar (n mod 10)] @ ''%''
      \<and> \<bar>(of_nat n :: rat) / 100 - of_nat rate / 10 ^ 27 * 100\<bar>
           \<le> 1 / 200 + (of_nat rate / 10 ^ 27 * 100) / 2 ^ 50"
proof -
  define n where "n = nat \<lfloor>rateToAPY rate * 100 + 1 / 2\<rfloor>"
  have shape: "apyString rate =
              natToString (n div 100) @ ''.'' @
                [digitChar (n div 10 mod 10), digitChar (n mod 10)] @ ''%''"
    by (simp add: apyString_def toFixed2_format Let_def n_def)
  have e1: "\<bar>(of_nat n :: rat) / 100 - rateToAPY rate\<bar> \<le> 1 / 200"
    unfolding n_def by (rule toFixed2_rounding[OF rateToAPY_nonneg])
  have e2: "\<bar>rateToAPY rate - of_nat rate / 10 ^ 27 * 100\<bar>
              \<le> (of_nat rate / 10 ^ 27 * 100) / 2 ^ 50"
    by (rule rateToAPY_accuracy)
  have "\<bar>(of_nat n :: rat) / 100 - of_nat rate / 10 ^ 27 * 100\<bar>
               \<le> 1 / 200 + (of_nat rate / 10 ^ 27 * 100) / 2 ^ 50"
    using e1 e2 by linarith
  with shape show ?thesis by blast
qed

text \<open>Where the parser accepts the signature and the read returns, the tool applies this
  conversion to the two rate fields.\<close>

lemma getAaveDataTool_conversion:
  assumes "parseAbi [aaveReserveSignature] = Returns parsed"
  shows "dataField (getAaveDataTool parseAbi toISO ap (Returns rd)) ''supplyAPY'' =
           Some (JStr (apyString (currentLiquidityRate rd)))"
    and "dataField (getAaveDataTool parseAbi toISO ap (Returns rd)) ''borrowAPY'' =
           Some (JStr (apyString (currentVariableBorrowRate rd)))"
  using assms by (simp_all add: dataField_def getProp_def getAaveDataTool_def)

lemma getAaveDataTool_parse_failure:
  assumes "parseAbi [aaveReserveSignature] = Throws m"
  shows "getAaveDataTool parseAbi toISO ap readContract = aaveFailed ap m"
  using assms by (simp add: getAaveDataTool_def)

lemma viemParseAbi_aave:
  "viemParseAbi [aaveReserveSignature] = Throws ''Invalid ABI parameter.''"
  by code_simp

text \<open>
  Claim C9. The conversion of a ray rate to a percentage text is what the claim says
  (\<open>5 * 10 ^ 25\<close> gives \<open>5.00%\<close>), but the tool never reaches it: the signature it passes
  to the library's parser writes the return type as \<open>tuple(...)\<close>, the parser throws
  inside the \<open>try\<close> block before the read is made, and for every chain, every asset and
  every outcome of the read the tool returns the failure object with the parser's
  message, with no \<open>data\<close> and so no \<open>supplyAPY\<close> or \<open>borrowAPY\<close>. In particular a
  reserve whose \<open>currentLiquidityRate\<close> is \<open>5 * 10 ^ 25\<close> does not yield \<open>5.00%\<close>.
\<close>

theorem aave_tool_never_converts:
  "viemParseAbi [aaveReserveSignature] = Throws ''Invalid ABI parameter.''
   \<and> getAaveDataTool viemParseAbi toISO ap readContract =
        [(''success'', JBool False),
         (''error'', JStr ''Invalid ABI parameter.''),
         (''chain'', JStr (chainName (aave_chain ap))),
         (''protocol'', JStr ''Aave V3'')]
   \<and> dataField (getAaveDataTool viemParseAbi toISO ap readContract) ''supplyAPY'' = None
   \<and> dataField (getAaveDataTool viemParseAbi toISO ap readContract) ''borrowAPY'' = None
   \<and> currentLiquidityRate exampleReserve = 5 * 10 ^ 25
   \<and> apyString (currentLiquidityRate exampleReserve) = ''5.00%''
   \<and> dataField (getAaveDataTool viemParseAbi toISO exampleAaveParams (Returns exampleReserve))
        ''supplyAPY'' \<noteq> Some (JStr ''5.00%'')"
proof -
  have env: "getAaveDataTool viemParseAbi toISO p rc =
        [(''success'', JBool False),
         (''error'', JStr ''Invalid ABI parameter.''),
         (''chain'', JStr (chainName (aave_chain p))),
         (''protocol'', JStr ''Aave V3'')]" for p rc
    by (simp add: getAaveDataTool_parse_failure[where parseAbi = viemParseAbi,
                    OF viemParseAbi_aave] aaveFailed_def)
  have nodata: "dataField (getAaveDataTool viemParseAbi toISO p rc) k = None" for p rc k
    by (simp add: env dataField_def getProp_def)
  have rate: "currentLiquidityRate exampleReserve = 5 * 10 ^ 25"
    by (simp add: exampleReserve_def)
  have txt5: "apyString (currentLiquidityRate exampleReserve) = ''5.00%''"
    unfolding rate by (rule apyString_5e25)
  show ?thesis
    using viemParseAbi_aave env nodata rate txt5 by simp
qed

end
